theory Spec2Isabelle
  imports Complex_Main
begin

section \<open>Text and calendar helpers of the Python runtime\<close>

text \<open>
  The attendance engine of \<^verbatim>\<open>SecureQRLoginSystem\<close> stores dates and times of day as
  text and reads them back with \<^verbatim>\<open>strptime\<close>; identifiers are built with
  \<^verbatim>\<open>str.replace\<close>, \<^verbatim>\<open>int\<close> and the format \<^verbatim>\<open>03d\<close>. These library functions are
  modelled on ASCII text (a \<^typ>\<open>string\<close> is a list of 8-bit characters), which is what the
  application writes. Outside the model: digits and blanks beyond ASCII, and CPython's
  length limit on the conversion between \<^verbatim>\<open>int\<close> and text.
\<close>

definition digit_char :: "nat \<Rightarrow> char" where
  "digit_char n = ''0123456789'' ! n"

definition is_digit :: "char \<Rightarrow> bool" where
  "is_digit c = (c \<in> set ''0123456789'')"

definition digit_val :: "char \<Rightarrow> nat" where
  "digit_val c = of_char c - 48"

text \<open>\<^verbatim>\<open>str(n)\<close> for a non-negative integer.\<close>

function str_nat :: "nat \<Rightarrow> string" where
  "str_nat n = (if n < 10 then [digit_char n] else str_nat (n div 10) @ [digit_char (n mod 10)])"
  by pat_completeness auto
termination
  by (relation "measure (\<lambda>n. n)") auto

declare str_nat.simps [simp del]

definition zfill :: "nat \<Rightarrow> string \<Rightarrow> string" where
  "zfill w s = replicate (w - length s) (CHR ''0'') @ s"

text \<open>The format specifications \<^verbatim>\<open>02d\<close> (of \<^verbatim>\<open>strftime\<close>) and \<^verbatim>\<open>03d\<close>; the sign counts in
  the width.\<close>

definition fmt_02d :: "nat \<Rightarrow> string" where
  "fmt_02d n = zfill 2 (str_nat n)"

definition fmt_03d :: "int \<Rightarrow> string" where
  "fmt_03d n = (if 0 \<le> n then zfill 3 (str_nat (nat n))
                else CHR ''-'' # zfill 2 (str_nat (nat (- n))))"

definition nat_of_digits :: "string \<Rightarrow> nat" where
  "nat_of_digits ds = foldl (\<lambda>a c. 10 * a + digit_val c) 0 ds"

definition is_space :: "char \<Rightarrow> bool" where
  "is_space c = (of_char c \<in> {9::nat, 10, 11, 12, 13, 32})"

definition strip :: "string \<Rightarrow> string" where
  "strip s = rev (dropWhile is_space (rev (dropWhile is_space s)))"

text \<open>The digits of an integer literal: single underscores are allowed between digits.\<close>

fun int_body :: "string \<Rightarrow> bool" where
  "int_body [] = False"
| "int_body [c] = is_digit c"
| "int_body (c # d # r) =
     (is_digit c \<and> (if d = CHR ''_'' then int_body r else int_body (d # r)))"

definition int_of_body :: "string \<Rightarrow> int option" where
  "int_of_body b = (if int_body b then Some (int (nat_of_digits (filter is_digit b))) else None)"

text \<open>\<^verbatim>\<open>int(s)\<close>; \<^const>\<open>None\<close> is the \<^verbatim>\<open>ValueError\<close>.\<close>

definition py_int :: "string \<Rightarrow> int option" where
  "py_int s =
     (case strip s of
        [] \<Rightarrow> None
      | c # r \<Rightarrow>
          if c = CHR ''-'' then map_option uminus (int_of_body r)
          else if c = CHR ''+'' then int_of_body r
          else int_of_body (c # r))"

text \<open>\<^verbatim>\<open>s.replace(old, '')\<close>: every occurrence of \<open>old\<close>, found from the left, is removed;
  an empty \<open>old\<close> leaves the text as it is.\<close>

function py_remove :: "string \<Rightarrow> string \<Rightarrow> string" where
  "py_remove old s =
     (if old = [] \<or> s = [] then s
      else if take (length old) s = old then py_remove old (drop (length old) s)
      else hd s # py_remove old (tl s))"
  by pat_completeness auto
termination
  by (relation "measure (\<lambda>(old, s). length s)") auto

declare py_remove.simps [simp del]

fun split_on :: "char \<Rightarrow> string \<Rightarrow> string list" where
  "split_on sep [] = [[]]"
| "split_on sep (c # cs) =
     (if c = sep then [] # split_on sep cs
      else (case split_on sep cs of f # fs \<Rightarrow> (c # f) # fs | [] \<Rightarrow> [[c]]))"

definition all_digits :: "string \<Rightarrow> bool" where
  "all_digits s = list_all is_digit s"

subsection \<open>Calendar dates\<close>

text \<open>
  A \<^verbatim>\<open>date\<close> is its proleptic Gregorian ordinal (day 1 is 0001-01-01), the number
  Python's \<^verbatim>\<open>date + timedelta\<close> computes with. The functions below follow
  \<^verbatim>\<open>datetime.py\<close>.
\<close>

definition MAXORDINAL :: int where
  "MAXORDINAL = 3652059"

definition is_leap :: "int \<Rightarrow> bool" where
  "is_leap y = (y mod 4 = 0 \<and> (y mod 100 \<noteq> 0 \<or> y mod 400 = 0))"

definition DAYS_IN_MONTH :: "int list" where
  "DAYS_IN_MONTH = [0, 31, 28, 31, 30, 31, 30, 31, 31, 30, 31, 30, 31]"

definition DAYS_BEFORE_MONTH :: "int list" where
  "DAYS_BEFORE_MONTH = [0, 0, 31, 59, 90, 120, 151, 181, 212, 243, 273, 304, 334]"

definition days_in_month :: "int \<Rightarrow> nat \<Rightarrow> int" where
  "days_in_month y m = (if m = 2 \<and> is_leap y then 29 else DAYS_IN_MONTH ! m)"

definition days_before_year :: "int \<Rightarrow> int" where
  "days_before_year year = (let y = year - 1 in y * 365 + y div 4 - y div 100 + y div 400)"

definition days_before_month :: "int \<Rightarrow> nat \<Rightarrow> int" where
  "days_before_month y m = DAYS_BEFORE_MONTH ! m + (if m > 2 \<and> is_leap y then 1 else 0)"

definition ymd2ord :: "int \<Rightarrow> nat \<Rightarrow> int \<Rightarrow> int" where
  "ymd2ord y m d = days_before_year y + days_before_month y m + d"

definition ord2ymd :: "int \<Rightarrow> int \<times> nat \<times> int" where
  "ord2ymd ordinal =
     (let n0 = ordinal - 1;
          n400 = n0 div 146097; n1' = n0 mod 146097;
          n100 = n1' div 36524; n2' = n1' mod 36524;
          n4 = n2' div 1461; n3' = n2' mod 1461;
          n1 = n3' div 365; n = n3' mod 365;
          year = n400 * 400 + 1 + n100 * 100 + n4 * 4 + n1
      in if n1 = 4 \<or> n100 = 4 then (year - 1, 12, 31)
         else
           (let leapyear = (n1 = 3 \<and> (n4 \<noteq> 24 \<or> n100 = 3));
                month = nat ((n + 50) div 32);
                preceding = DAYS_BEFORE_MONTH ! month + (if month > 2 \<and> leapyear then 1 else 0)
            in if preceding > n
               then (let month' = month - 1;
                         preceding' = preceding - (DAYS_IN_MONTH ! month'
                                        + (if month' = 2 \<and> leapyear then 1 else 0))
                     in (year, month', n - preceding' + 1))
               else (year, month, n - preceding + 1)))"

text \<open>\<^verbatim>\<open>d.strftime('%Y-%m-%d')\<close> (the year is printed as the C library prints it, without
  padding).\<close>

definition strftime_date :: "int \<Rightarrow> string" where
  "strftime_date ordinal =
     (case ord2ymd ordinal of
        (y, m, d) \<Rightarrow> str_nat (nat y) @ ''-'' @ fmt_02d m @ ''-'' @ fmt_02d (nat d))"

text \<open>
  \<^verbatim>\<open>datetime.strptime(s, '%Y-%m-%d').date()\<close>. The format's regular expression takes
  four digits for the year, \<^verbatim>\<open>1[0-2]|0[1-9]|[1-9]\<close> for the month and
  \<^verbatim>\<open>3[0-1]|[1-2]\d|0[1-9]|[1-9]| [1-9]\<close> for the day, and must use up the text;
  the constructor then refuses year 0 and a day beyond the month's end. \<^const>\<open>None\<close> is the
  \<^verbatim>\<open>ValueError\<close>.
\<close>

definition year_field :: "string \<Rightarrow> bool" where
  "year_field f = (length f = 4 \<and> all_digits f)"

definition month_field :: "string \<Rightarrow> bool" where
  "month_field f =
     (all_digits f \<and> (length f = 1 \<or> length f = 2)
        \<and> 1 \<le> nat_of_digits f \<and> nat_of_digits f \<le> 12)"

definition day_field :: "string \<Rightarrow> bool" where
  "day_field f =
     ((all_digits f \<and> (length f = 1 \<or> length f = 2)
         \<and> 1 \<le> nat_of_digits f \<and> nat_of_digits f \<le> 31)
      \<or> (length f = 2 \<and> hd f = CHR '' '' \<and> is_digit (f ! 1) \<and> f ! 1 \<noteq> CHR ''0''))"

definition strptime_date :: "string \<Rightarrow> int option" where
  "strptime_date s =
     (case split_on (CHR ''-'') s of
        [fy, fm, fd] \<Rightarrow>
          if year_field fy \<and> month_field fm \<and> day_field fd then
            (let y = int (nat_of_digits fy); m = nat_of_digits fm;
                 d = int (nat_of_digits (filter is_digit fd))
             in if 1 \<le> y \<and> d \<le> days_in_month y m then Some (ymd2ord y m d) else None)
          else None
      | _ \<Rightarrow> None)"

subsection \<open>Times of day\<close>

text \<open>The value of \<^verbatim>\<open>datetime.now()\<close>, as far as the engine reads it: the date and the
  time of day (microseconds are never printed).\<close>

record datetime =
  dt_date :: int
  hour :: nat
  minute :: nat
  second :: nat

definition valid_datetime :: "datetime \<Rightarrow> bool" where
  "valid_datetime t =
     (1 \<le> dt_date t \<and> dt_date t \<le> MAXORDINAL \<and> hour t < 24 \<and> minute t < 60 \<and> second t < 60)"

definition strftime_time :: "datetime \<Rightarrow> string" where
  "strftime_time t = fmt_02d (hour t) @ '':'' @ fmt_02d (minute t) @ '':'' @ fmt_02d (second t)"

text \<open>
  \<^verbatim>\<open>datetime.strptime(s, '%H:%M:%S')\<close>, read as seconds since midnight (the date part is
  the same default on both sides of the subtraction in the engine). The fields match
  \<^verbatim>\<open>2[0-3]|[0-1]\d|\d\<close>, \<^verbatim>\<open>[0-5]\d|\d\<close> and \<^verbatim>\<open>6[0-1]|[0-5]\d|\d\<close>; seconds 60 and 61
  match but are refused by the constructor.
\<close>

definition time_field :: "nat \<Rightarrow> string \<Rightarrow> bool" where
  "time_field bound f =
     (all_digits f \<and> (length f = 1 \<or> length f = 2) \<and> nat_of_digits f \<le> bound)"

definition strptime_time :: "string \<Rightarrow> int option" where
  "strptime_time s =
     (case split_on (CHR '':'') s of
        [fh, fm, fs] \<Rightarrow>
          if time_field 23 fh \<and> time_field 59 fm \<and> time_field 61 fs \<and> nat_of_digits fs < 60
          then Some (int (nat_of_digits fh * 3600 + nat_of_digits fm * 60 + nat_of_digits fs))
          else None
      | _ \<Rightarrow> None)"

text \<open>The seconds since midnight of a clock reading: what \<^const>\<open>strptime_time\<close> gives
  back for \<^const>\<open>strftime_time\<close>.\<close>

definition seconds_of_day :: "datetime \<Rightarrow> int" where
  "seconds_of_day t = int (hour t * 3600 + minute t * 60 + second t)"

text \<open>
  \<^verbatim>\<open>round(seconds / 3600, 2)\<close>, in hundredths of an hour. Away from a decimal midpoint the
  binary quotient rounds as the exact one does. At a midpoint (\<open>seconds mod 36 = 18\<close>) the
  result depends on which side of it the binary quotient lies; that is the parameter
  \<open>up\<close>, so that no assumption is made on the floating-point division.
\<close>

type_synonym hours = int

definition round_hours :: "(int \<Rightarrow> bool) \<Rightarrow> int \<Rightarrow> hours" where
  "round_hours up secs =
     (let q = secs div 36; r = secs mod 36
      in if r < 18 then q else if 18 < r then q + 1 else if up secs then q + 1 else q)"

section \<open>The store: \<^verbatim>\<open>database/database.py\<close>\<close>

text \<open>
  The four tables of \<^verbatim>\<open>DatabaseManager.create_tables\<close>, each a list of rows in insertion
  order. A nullable column is an \<^typ>\<open>'a option\<close>. The \<^verbatim>\<open>timestamp\<close> and
  \<^verbatim>\<open>created_at\<close> columns, filled by the store's own clock, and the key of the history
  and event rows are left out: nothing in the engine reads them.
\<close>

record user =
  users_id :: nat
  employee_id :: string
  name :: string
  email :: string
  phone :: "string option"
  hashed_password :: string
  salt :: string
  is_logged_in :: int

record history_row =
  history_user_id :: nat
  action :: string

record attendance_row =
  attendance_id :: nat
  attendance_user_id :: nat
  attendance_date :: string
  login_time :: "string option"
  logout_time :: "string option"
  hours_worked :: hours
  status :: string
  attendance_notes :: "string option"

record event_row =
  events_date :: string
  title :: string
  category :: string

record db =
  users :: "user list"
  login_history :: "history_row list"
  attendance :: "attendance_row list"
  attendance_seq :: nat
  events :: "event_row list"

text \<open>The exceptions the engine can meet, by class and message.\<close>

datatype error =
  IntegrityError string
| OperationalError string
| ValueError
| OverflowError
| AttributeError

definition get_user_by_employee_id :: "db \<Rightarrow> string \<Rightarrow> user option" where
  "get_user_by_employee_id d emp_id = find (\<lambda>u. employee_id u = emp_id) (users d)"

definition get_user_by_id :: "db \<Rightarrow> nat \<Rightarrow> user option" where
  "get_user_by_id d user_id = find (\<lambda>u. users_id u = user_id) (users d)"

definition update_user_login_status :: "db \<Rightarrow> nat \<Rightarrow> int \<Rightarrow> db" where
  "update_user_login_status d user_id st =
     d\<lparr>users := map (\<lambda>u. if users_id u = user_id then u\<lparr>is_logged_in := st\<rparr> else u) (users d)\<rparr>"

text \<open>Foreign keys are enforced (\<^verbatim>\<open>PRAGMA foreign_keys = ON\<close>): a history or attendance row
  needs its user.\<close>

definition user_exists :: "db \<Rightarrow> nat \<Rightarrow> bool" where
  "user_exists d user_id = (get_user_by_id d user_id \<noteq> None)"

definition log_history :: "db \<Rightarrow> nat \<Rightarrow> string \<Rightarrow> error + db" where
  "log_history d user_id act =
     (if user_exists d user_id
      then Inr (d\<lparr>login_history :=
                   login_history d @ [\<lparr>history_user_id = user_id, action = act\<rparr>]\<rparr>)
      else Inl (IntegrityError ''FOREIGN KEY constraint failed''))"

definition get_attendance_for_date :: "db \<Rightarrow> nat \<Rightarrow> string \<Rightarrow> attendance_row option" where
  "get_attendance_for_date d user_id date =
     find (\<lambda>r. attendance_user_id r = user_id \<and> attendance_date r = date) (attendance d)"

definition get_events_for_date :: "db \<Rightarrow> string \<Rightarrow> event_row list" where
  "get_events_for_date d date = filter (\<lambda>e. events_date e = date) (events d)"

text \<open>The table constraint \<^verbatim>\<open>UNIQUE(user_id, date)\<close>, as a property of a store.\<close>

definition attendance_keys :: "db \<Rightarrow> (nat \<times> string) list" where
  "attendance_keys d = map (\<lambda>r. (attendance_user_id r, attendance_date r)) (attendance d)"

definition one_row_per_day :: "db \<Rightarrow> bool" where
  "one_row_per_day d = distinct (attendance_keys d)"

text \<open>Python's truth value of an optional text: \<^verbatim>\<open>None\<close> and the empty text are false.\<close>

definition truthy :: "string option \<Rightarrow> bool" where
  "truthy x = (case x of None \<Rightarrow> False | Some s \<Rightarrow> s \<noteq> [])"

text \<open>
  The \<^verbatim>\<open>INSERT\<close> of \<^verbatim>\<open>upsert_attendance\<close> with the table's constraints:
  \<^verbatim>\<open>status TEXT NOT NULL\<close>, \<^verbatim>\<open>UNIQUE(user_id, date)\<close> and the foreign key. The key is the
  next value of the \<^verbatim>\<open>AUTOINCREMENT\<close> sequence.
\<close>

definition insert_attendance ::
  "db \<Rightarrow> nat \<Rightarrow> string \<Rightarrow> string option \<Rightarrow> string option \<Rightarrow> hours \<Rightarrow> string option
     \<Rightarrow> string option \<Rightarrow> error + db" where
  "insert_attendance d user_id date li lo h st nt =
     (case st of
        None \<Rightarrow> Inl (IntegrityError ''NOT NULL constraint failed: attendance.status'')
      | Some s \<Rightarrow>
          if get_attendance_for_date d user_id date \<noteq> None
          then Inl (IntegrityError
                 ''UNIQUE constraint failed: attendance.user_id, attendance.date'')
          else if \<not> user_exists d user_id
          then Inl (IntegrityError ''FOREIGN KEY constraint failed'')
          else Inr (d\<lparr>attendance := attendance d @
                        [\<lparr>attendance_id = attendance_seq d + 1, attendance_user_id = user_id,
                          attendance_date = date, login_time = li, logout_time = lo,
                          hours_worked = h, status = s, attendance_notes = nt\<rparr>],
                      attendance_seq := attendance_seq d + 1\<rparr>))"

text \<open>The \<^verbatim>\<open>SET\<close> list that \<^verbatim>\<open>upsert_attendance\<close> builds: a column is assigned only when
  its argument passes the test the code makes for it.\<close>

definition set_columns ::
  "string option \<Rightarrow> string option \<Rightarrow> hours option \<Rightarrow> string option \<Rightarrow> string option
     \<Rightarrow> attendance_row \<Rightarrow> attendance_row" where
  "set_columns li lo h st nt r =
     r\<lparr>login_time := (if truthy li then li else login_time r),
       logout_time := (if truthy lo then lo else logout_time r),
       hours_worked := (case h of None \<Rightarrow> hours_worked r | Some x \<Rightarrow> x),
       status := (if truthy st then the st else status r),
       attendance_notes := (case nt of None \<Rightarrow> attendance_notes r | Some x \<Rightarrow> Some x)\<rparr>"

definition upsert_attendance ::
  "db \<Rightarrow> nat \<Rightarrow> string \<Rightarrow> string option \<Rightarrow> string option \<Rightarrow> hours option \<Rightarrow> string option
     \<Rightarrow> string option \<Rightarrow> error + db" where
  "upsert_attendance d user_id date li lo h st nt =
     (case get_attendance_for_date d user_id date of
        Some existing \<Rightarrow>
          if \<not> truthy li \<and> \<not> truthy lo \<and> h = None \<and> \<not> truthy st \<and> nt = None
          then Inl (OperationalError ''near WHERE: syntax error'')
          else Inr (d\<lparr>attendance :=
                        map (\<lambda>r. if attendance_id r = attendance_id existing
                                 then set_columns li lo h st nt r else r)
                          (attendance d)\<rparr>)
      | None \<Rightarrow>
          insert_attendance d user_id date li lo (case h of None \<Rightarrow> 0 | Some x \<Rightarrow> x) st nt)"

section \<open>The session engine: \<^verbatim>\<open>core/auth_manager.py\<close>\<close>

text \<open>
  What \<^verbatim>\<open>AuthManager\<close> returns is a text; the constructors are its return statements:
  \<open>Success t\<close> is \<^verbatim>\<open>"Success: " + t\<close>, \<open>Error t\<close> is \<^verbatim>\<open>"Error: " + t\<close>, \<open>Info t\<close> is
  \<^verbatim>\<open>"Info: " + t\<close>, and the last three carry the exception whose message ends the text.
  The callers test \<^verbatim>\<open>result.startswith("Success")\<close>.
\<close>

datatype reply =
  Success string
| Info string
| Error string
| Login_Error error
| Logout_Error error
| Error_marking_leave error

definition perform_login :: "db \<Rightarrow> datetime \<Rightarrow> nat \<Rightarrow> string \<Rightarrow> db \<times> reply" where
  "perform_login d now user_id user_name =
     (let current_date = strftime_date (dt_date now);
          current_time = strftime_time now;
          d1 = update_user_login_status d user_id 1
      in case log_history d1 user_id ''login'' of
           Inl e \<Rightarrow> (d1, Login_Error e)
         | Inr d2 \<Rightarrow>
             (case upsert_attendance d2 user_id current_date (Some current_time) None None
                     (Some ''Present'') None of
                Inl e \<Rightarrow> (d2, Login_Error e)
              | Inr d3 \<Rightarrow> (d3, Success (user_name @ '' logged in at '' @ current_time @ ''.''))))"

text \<open>The hours of \<^verbatim>\<open>_perform_logout\<close>: 0 unless today's row has a login time and both
  times parse.\<close>

definition hours_between :: "(int \<Rightarrow> bool) \<Rightarrow> attendance_row option \<Rightarrow> string \<Rightarrow> hours" where
  "hours_between up record current_time =
     (case record of
        None \<Rightarrow> 0
      | Some r \<Rightarrow>
          if truthy (login_time r) then
            (case strptime_time (the (login_time r)) of
               None \<Rightarrow> 0
             | Some login_dt \<Rightarrow>
                 (case strptime_time current_time of
                    None \<Rightarrow> 0
                  | Some logout_dt \<Rightarrow> round_hours up (logout_dt - login_dt)))
          else 0)"

definition perform_logout ::
  "(int \<Rightarrow> bool) \<Rightarrow> db \<Rightarrow> datetime \<Rightarrow> nat \<Rightarrow> string \<Rightarrow> string \<Rightarrow> db \<times> reply" where
  "perform_logout up d now user_id user_name act =
     (let current_date = strftime_date (dt_date now);
          current_time = strftime_time now;
          d1 = update_user_login_status d user_id 0
      in case log_history d1 user_id act of
           Inl e \<Rightarrow> (d1, Logout_Error e)
         | Inr d2 \<Rightarrow>
             (let record = get_attendance_for_date d2 user_id current_date;
                  hw = hours_between up record current_time
              in case upsert_attendance d2 user_id current_date None (Some current_time)
                      (Some hw) None None of
                   Inl e \<Rightarrow> (d2, Logout_Error e)
                 | Inr d3 \<Rightarrow>
                     (d3, Success (user_name @ '' logged out at '' @ current_time @ ''.''))))"

definition force_logout :: "(int \<Rightarrow> bool) \<Rightarrow> db \<Rightarrow> datetime \<Rightarrow> nat \<Rightarrow> db \<times> reply" where
  "force_logout up d now user_id =
     (case get_user_by_id d user_id of
        None \<Rightarrow> (d, Error ''User not found.'')
      | Some u \<Rightarrow>
          if is_logged_in u = 0 then (d, Info ''User is already logged out.'')
          else perform_logout up d now user_id (name u) ''force_logout'')"

text \<open>The loop of \<^verbatim>\<open>mark_leave\<close>; an exception leaves it with the rows written so far.
  \<^verbatim>\<open>current_dt += timedelta(days=1)\<close> raises \<^verbatim>\<open>OverflowError\<close> past the last date.\<close>

function mark_leave_loop ::
  "db \<Rightarrow> nat \<Rightarrow> int \<Rightarrow> int \<Rightarrow> string \<Rightarrow> string \<Rightarrow> nat \<Rightarrow> db \<times> (error + nat)" where
  "mark_leave_loop d user_id current_dt end_dt leave_type nt count =
     (if current_dt \<le> end_dt then
        (case upsert_attendance d user_id (strftime_date current_dt) None None (Some 0)
                (Some leave_type) (Some nt) of
           Inl e \<Rightarrow> (d, Inl e)
         | Inr d' \<Rightarrow>
             if 0 < current_dt + 1 \<and> current_dt + 1 \<le> MAXORDINAL
             then mark_leave_loop d' user_id (current_dt + 1) end_dt leave_type nt (count + 1)
             else (d', Inl OverflowError))
      else (d, Inr count))"
  by pat_completeness auto
termination
  by (relation "measure (\<lambda>(d, user_id, current_dt, end_dt, leave_type, nt, count).
         nat (end_dt + 1 - current_dt))") auto

declare mark_leave_loop.simps [simp del]

definition mark_leave :: "db \<Rightarrow> nat \<Rightarrow> string \<Rightarrow> string \<Rightarrow> string \<Rightarrow> string \<Rightarrow> db \<times> reply" where
  "mark_leave d user_id start_date end_date leave_type nt =
     (case strptime_date start_date of
        None \<Rightarrow> (d, Error_marking_leave ValueError)
      | Some start_dt \<Rightarrow>
          (case strptime_date end_date of
             None \<Rightarrow> (d, Error_marking_leave ValueError)
           | Some end_dt \<Rightarrow>
               if start_dt > end_dt then (d, Error ''Start date must be before end date.'')
               else
                 (case mark_leave_loop d user_id start_dt end_dt leave_type nt 0 of
                    (d', Inl e) \<Rightarrow> (d', Error_marking_leave e)
                  | (d', Inr count) \<Rightarrow>
                      (d', Success (''Marked '' @ leave_type @ '' for '' @ str_nat count
                                     @ '' days.'')))))"

text \<open>
  Manual login and logout. \<open>pbkdf2 password salt\<close> stands for
  \<^verbatim>\<open>SecurityManager.hash_password\<close> (PBKDF2-HMAC-SHA256, 100000 rounds, as hexadecimal
  text); \<^verbatim>\<open>verify_password\<close> compares its result with the stored text.
\<close>

definition verify_password ::
  "(string \<Rightarrow> string \<Rightarrow> string) \<Rightarrow> string \<Rightarrow> string \<Rightarrow> string \<Rightarrow> bool" where
  "verify_password pbkdf2 stored_password_hex slt provided_password =
     (stored_password_hex = pbkdf2 provided_password slt)"

definition handle_manual_login ::
  "(string \<Rightarrow> string \<Rightarrow> string) \<Rightarrow> db \<Rightarrow> datetime \<Rightarrow> string \<Rightarrow> string \<Rightarrow> db \<times> reply" where
  "handle_manual_login pbkdf2 d now emp_id password =
     (case get_user_by_employee_id d emp_id of
        None \<Rightarrow> (d, Error ''Employee ID not found.'')
      | Some u \<Rightarrow>
          if verify_password pbkdf2 (hashed_password u) (salt u) password then
            (if is_logged_in u \<noteq> 0 then (d, Error ''User is already logged in.'')
             else perform_login d now (users_id u) (name u))
          else (d, Error ''Invalid password.''))"

definition handle_manual_logout ::
  "(string \<Rightarrow> string \<Rightarrow> string) \<Rightarrow> (int \<Rightarrow> bool) \<Rightarrow> db \<Rightarrow> datetime \<Rightarrow> string \<Rightarrow> string
     \<Rightarrow> db \<times> reply" where
  "handle_manual_logout pbkdf2 up d now emp_id password =
     (case get_user_by_employee_id d emp_id of
        None \<Rightarrow> (d, Error ''Employee ID not found.'')
      | Some u \<Rightarrow>
          if \<not> verify_password pbkdf2 (hashed_password u) (salt u) password
          then (d, Error ''Invalid password.'')
          else if is_logged_in u = 0 then (d, Error ''User is already logged out.'')
          else perform_logout up d now (users_id u) (name u) ''logout'')"

text \<open>
  The text decoded from a badge, as \<^verbatim>\<open>json.loads\<close> sees it: not JSON at all
  (\<^verbatim>\<open>JSONDecodeError\<close>), a JSON value that is no object (its \<^verbatim>\<open>.get\<close> raises
  \<^verbatim>\<open>AttributeError\<close>, which \<^verbatim>\<open>handle_qr_login_toggle\<close> does not catch), or an object
  with its \<^verbatim>\<open>employee_id\<close> entry, a text when present.
\<close>

datatype qr_data = Not_json | Json_other | Json_object "string option"

definition handle_qr_login_toggle ::
  "(int \<Rightarrow> bool) \<Rightarrow> db \<Rightarrow> datetime \<Rightarrow> qr_data \<Rightarrow> error + db \<times> reply" where
  "handle_qr_login_toggle up d now qr =
     (case qr of
        Not_json \<Rightarrow> Inr (d, Error ''Invalid QR code data.'')
      | Json_other \<Rightarrow> Inl AttributeError
      | Json_object e \<Rightarrow>
          if \<not> truthy e then Inr (d, Error ''QR code does not contain an employee ID.'')
          else
            (case get_user_by_employee_id d (the e) of
               None \<Rightarrow> Inr (d, Error (''No user found for '' @ the e @ ''.''))
             | Some u \<Rightarrow>
                 if is_logged_in u \<noteq> 0
                 then Inr (perform_logout up d now (users_id u) (name u) ''logout'')
                 else Inr (perform_login d now (users_id u) (name u))))"

text \<open>\<^verbatim>\<open>UserManager.delete_user\<close>: the user's history and attendance go with the user
  (\<^verbatim>\<open>ON DELETE CASCADE\<close>).\<close>

definition delete_user :: "db \<Rightarrow> nat \<Rightarrow> db" where
  "delete_user d user_id =
     d\<lparr>users := filter (\<lambda>u. users_id u \<noteq> user_id) (users d),
       login_history := filter (\<lambda>h. history_user_id h \<noteq> user_id) (login_history d),
       attendance := filter (\<lambda>r. attendance_user_id r \<noteq> user_id) (attendance d)\<rparr>"

section \<open>The scan loop: \<^verbatim>\<open>gui/user_panel.py\<close>\<close>

text \<open>
  One turn of \<^verbatim>\<open>UserPanel.update_camera_feed\<close> reads a frame. The model's \<open>tick\<close> is
  what that turn meets: whether the read succeeded, \<^verbatim>\<open>time.time()\<close> (seconds, taken as
  exact), what \<^verbatim>\<open>scan_qr_from_frame\<close> finds in the frame (\<^const>\<open>None\<close> when there is no
  code), and \<^verbatim>\<open>datetime.now()\<close> for the engine.
\<close>

record tick =
  ret :: bool
  current_time :: real
  scan_qr_from_frame :: "qr_data option"
  wall_clock :: datetime

record user_panel =
  camera_running :: bool
  last_scan_time :: real
  scan_cooldown :: real

text \<open>The panel as \<^verbatim>\<open>__init__\<close> and \<^verbatim>\<open>start_camera\<close> leave it.\<close>

definition started_panel :: user_panel where
  "started_panel = \<lparr>camera_running = True, last_scan_time = 0, scan_cooldown = 3\<rparr>"

datatype outcome =
  Not_running
| No_frame
| Not_scanned
| No_code
| Toggled reply
| Stopped error

definition update_camera_feed_turn ::
  "(int \<Rightarrow> bool) \<Rightarrow> user_panel \<times> db \<Rightarrow> tick \<Rightarrow> (user_panel \<times> db) \<times> outcome" where
  "update_camera_feed_turn up st tk =
     (case st of (p, d) \<Rightarrow>
        if \<not> camera_running p then ((p, d), Not_running)
        else if \<not> ret tk then ((p, d), No_frame)
        else if current_time tk - last_scan_time p > scan_cooldown p then
          (case scan_qr_from_frame tk of
             None \<Rightarrow> ((p, d), No_code)
           | Some qr \<Rightarrow>
               (let p' = p\<lparr>last_scan_time := current_time tk\<rparr>
                in case handle_qr_login_toggle up d (wall_clock tk) qr of
                     Inl e \<Rightarrow> ((p'\<lparr>camera_running := False\<rparr>, d), Stopped e)
                   | Inr (d', r) \<Rightarrow> ((p', d'), Toggled r)))
        else ((p, d), Not_scanned))"

fun update_camera_feed ::
  "(int \<Rightarrow> bool) \<Rightarrow> user_panel \<times> db \<Rightarrow> tick list \<Rightarrow> (user_panel \<times> db) \<times> outcome list" where
  "update_camera_feed up st [] = (st, [])"
| "update_camera_feed up st (tk # tks) =
     (case update_camera_feed_turn up st tk of
        (st', out) \<Rightarrow>
          (case update_camera_feed up st' tks of (st'', outs) \<Rightarrow> (st'', out # outs)))"

section \<open>Employee identifiers: \<^verbatim>\<open>core/user_manager.py\<close>\<close>

text \<open>
  The query of \<^verbatim>\<open>get_next_employee_id_number\<close> selects with \<^verbatim>\<open>LIKE\<close> (\<open>%\<close> stands for any
  text, \<open>_\<close> for any character, ASCII letters match in either case) and takes the first
  row of \<^verbatim>\<open>ORDER BY employee_id DESC\<close> (text compared byte by byte).
\<close>

definition like_char :: "char \<Rightarrow> char \<Rightarrow> bool" where
  "like_char p c =
     (p = c
      \<or> (65 \<le> (of_char p :: nat) \<and> (of_char p :: nat) \<le> 90 \<and> (of_char c :: nat) = of_char p + 32)
      \<or> (65 \<le> (of_char c :: nat) \<and> (of_char c :: nat) \<le> 90 \<and> (of_char p :: nat) = of_char c + 32))"

fun like :: "string \<Rightarrow> string \<Rightarrow> bool" where
  "like [] s = (s = [])"
| "like (p # ps) [] = (p = CHR ''%'' \<and> like ps [])"
| "like (p # ps) (c # r) =
     (if p = CHR ''%'' then like ps (c # r) \<or> like (p # ps) r
      else (p = CHR ''_'' \<or> like_char p c) \<and> like ps r)"

fun str_le :: "string \<Rightarrow> string \<Rightarrow> bool" where
  "str_le [] t = True"
| "str_le (c # cs) [] = False"
| "str_le (c # cs) (d # ds) =
     (if c = d then str_le cs ds else (of_char c :: nat) < of_char d)"

fun order_desc_first :: "string list \<Rightarrow> string option" where
  "order_desc_first [] = None"
| "order_desc_first (x # xs) =
     (case order_desc_first xs of
        None \<Rightarrow> Some x
      | Some m \<Rightarrow> Some (if str_le m x then x else m))"

definition last_user :: "db \<Rightarrow> string \<Rightarrow> string option" where
  "last_user d prefix =
     order_desc_first (filter (like (prefix @ ''%'')) (map employee_id (users d)))"

definition get_next_employee_id_number :: "db \<Rightarrow> string \<Rightarrow> int" where
  "get_next_employee_id_number d prefix =
     (case last_user d prefix of
        Some eid \<Rightarrow>
          (case py_int (py_remove prefix eid) of
             Some n \<Rightarrow> n + 1
           | None \<Rightarrow> 1)
      | None \<Rightarrow> 1)"

definition ID_PREFIX :: string where
  "ID_PREFIX = ''ALLY''"

text \<open>\<^verbatim>\<open>UserManager.generate_employee_id\<close>; \<open>prefix\<close> is the manager's field, which
  \<^verbatim>\<open>__init__\<close> sets to \<^const>\<open>ID_PREFIX\<close>.\<close>

definition generate_employee_id :: "string \<Rightarrow> db \<Rightarrow> string" where
  "generate_employee_id prefix d = prefix @ fmt_03d (get_next_employee_id_number d prefix)"

section \<open>Example data\<close>

text \<open>Two registered workers, a store holding nothing else, and the store after the
  first worker's day of 1 June 2024 (in at 09:00:00, out at 17:30:00).\<close>

definition ann :: user where
  "ann = \<lparr>users_id = 1, employee_id = ''ALLY001'', name = ''Ann'', email = ''ann@example.org'',
          phone = Some ''5550100001'', hashed_password = ''5f4dcc3b'', salt = ''a1b2'',
          is_logged_in = 0\<rparr>"

definition bob :: user where
  "bob = \<lparr>users_id = 2, employee_id = ''ALLY002'', name = ''Bob'', email = ''bob@example.org'',
          phone = Some ''5550100002'', hashed_password = ''0d107d09'', salt = ''c3d4'',
          is_logged_in = 0\<rparr>"

definition fresh_store :: db where
  "fresh_store = \<lparr>users = [ann, bob], login_history = [], attendance = [],
                  attendance_seq = 0, events = []\<rparr>"

definition worked_row :: attendance_row where
  "worked_row = \<lparr>attendance_id = 1, attendance_user_id = 1, attendance_date = ''2024-06-01'',
                 login_time = Some ''09:00:00'', logout_time = Some ''17:30:00'',
                 hours_worked = 850, status = ''Present'', attendance_notes = None\<rparr>"

definition worked_store :: db where
  "worked_store = fresh_store\<lparr>attendance := [worked_row], attendance_seq := 1\<rparr>"

text \<open>The store in the middle of that day: the first worker is logged in since 09:00:00.\<close>

definition open_store :: db where
  "open_store =
     \<lparr>users = [ann\<lparr>is_logged_in := 1\<rparr>, bob],
      login_history = [\<lparr>history_user_id = 1, action = ''login''\<rparr>],
      attendance = [worked_row\<lparr>logout_time := None, hours_worked := 0\<rparr>],
      attendance_seq = 1, events = []\<rparr>"

text \<open>A store whose users carry the given employee identifiers, in the order of their
  registration.\<close>

definition staff :: "string list \<Rightarrow> db" where
  "staff ids =
     \<lparr>users = map (\<lambda>(i, e). \<lparr>users_id = i, employee_id = e, name = ''Worker'',
                               email = e @ ''@example.org'', phone = Some ''5550100000'',
                               hashed_password = ''5f4dcc3b'', salt = ''a1b2'',
                               is_logged_in = 0\<rparr>) (enumerate 1 ids),
      login_history = [], attendance = [], attendance_seq = 0, events = []\<rparr>"

text \<open>The store after the administrator has marked 2 June 2024 as \<^verbatim>\<open>Holiday\<close> for the
  first worker.\<close>

definition holiday_row :: attendance_row where
  "holiday_row = \<lparr>attendance_id = 1, attendance_user_id = 1, attendance_date = ''2024-06-02'',
                  login_time = None, logout_time = None, hours_worked = 0,
                  status = ''Holiday'', attendance_notes = Some ''Founders Day''\<rparr>"

definition closed_store :: db where
  "closed_store = fresh_store\<lparr>attendance := [holiday_row], attendance_seq := 1\<rparr>"

text \<open>The empty store with 1 June 2024 entered in the calendar as a holiday.\<close>

definition holiday_store :: db where
  "holiday_store =
     fresh_store\<lparr>events := [\<lparr>events_date = ''2024-06-01'', title = ''Founders Day'',
                                category = ''Holiday''\<rparr>]\<rparr>"

definition on_june_1 :: "nat \<Rightarrow> nat \<Rightarrow> nat \<Rightarrow> datetime" where
  "on_june_1 h m s = \<lparr>dt_date = 739038, hour = h, minute = m, second = s\<rparr>"

text \<open>A turn of the scan loop that reads a frame showing the badge of an employee
  identifier.\<close>

definition badge_frame :: "real \<Rightarrow> string \<Rightarrow> datetime \<Rightarrow> tick" where
  "badge_frame t e c =
     \<lparr>ret = True, current_time = t, scan_qr_from_frame = Some (Json_object (Some e)),
      wall_clock = c\<rparr>"

section \<open>Facts about the library model\<close>

lemma digit_val_le: "is_digit c \<Longrightarrow> digit_val c \<le> 9"
  by (auto simp: is_digit_def digit_val_def)

lemma foldl_digits_bound:
  "list_all is_digit ds \<Longrightarrow>
     foldl (\<lambda>a c. 10 * a + digit_val c) a ds < (a + 1) * 10 ^ length ds"
proof (induction ds arbitrary: a)
  case Nil
  then show ?case by simp
next
  case (Cons c ds)
  let ?k = "10 * a + digit_val c"
  from Cons.prems have "digit_val c \<le> 9" by (simp add: digit_val_le)
  then have "?k + 1 \<le> (a + 1) * 10" by simp
  then have le: "(?k + 1) * 10 ^ length ds \<le> ((a + 1) * 10) * 10 ^ length ds"
    by (rule mult_le_mono1)
  have "foldl (\<lambda>a c. 10 * a + digit_val c) ?k ds < (?k + 1) * 10 ^ length ds"
    using Cons.IH [of ?k] Cons.prems by simp
  from this le have "foldl (\<lambda>a c. 10 * a + digit_val c) ?k ds < ((a + 1) * 10) * 10 ^ length ds"
    by (rule less_le_trans)
  also have "((a + 1) * 10) * 10 ^ length ds = (a + 1) * 10 ^ length (c # ds)"
    by (simp only: length_Cons power_Suc mult.assoc)
  finally show ?case by (simp only: foldl_Cons)
qed

lemma nat_of_digits_bound:
  "all_digits ds \<Longrightarrow> nat_of_digits ds < 10 ^ length ds"
  using foldl_digits_bound [of ds 0] by (simp add: all_digits_def nat_of_digits_def)


lemma days_before_year_bounds:
  assumes "1 \<le> y" and "y \<le> 9999"
  shows "0 \<le> days_before_year y" and "days_before_year y \<le> 365 * (y - 1) + 2424"
proof -
  define z where "z = y - 1"
  define q4 where "q4 = z div 4"
  define q100 where "q100 = z div 100"
  define q400 where "q400 = z div 400"
  have z: "0 \<le> z" "z \<le> 9998" using assms by (simp_all add: z_def)
  have f4: "4 * q4 \<le> z" "z < 4 * q4 + 4" unfolding q4_def by presburger+
  have f100: "100 * q100 \<le> z" "z < 100 * q100 + 100" unfolding q100_def by presburger+
  have f400: "400 * q400 \<le> z" "z < 400 * q400 + 400" unfolding q400_def by presburger+
  have eq: "days_before_year y = z * 365 + q4 - q100 + q400"
    by (simp add: days_before_year_def Let_def z_def q4_def q100_def q400_def)
  have a: "q100 \<le> q4" using f4 f100 z by linarith
  have b: "0 \<le> q400" using f400 z by linarith
  show "0 \<le> days_before_year y" using eq a b z by linarith
  have c: "q4 - q100 \<le> 2400" using f4 f100 z by linarith
  have d: "q400 \<le> 24" using f400 z by linarith
  show "days_before_year y \<le> 365 * (y - 1) + 2424" using eq c d z by (simp add: z_def)
qed


lemma month_cases:
  assumes "1 \<le> m" and "m \<le> 12"
  shows "m \<in> {1, 2, 3, 4, 5, 6, 7, 8, 9, 10, 11, 12::nat}"
  using assms by (simp; arith)

lemma month_day_bounds:
  assumes "1 \<le> m" and "m \<le> 12" and "d \<le> days_in_month y m"
  shows "days_before_month y m + d \<le> 365 + (if is_leap y then 1 else 0)"
  using month_cases [OF assms(1,2)] assms(3)
  by (auto simp: days_before_month_def days_in_month_def DAYS_BEFORE_MONTH_def
        DAYS_IN_MONTH_def split: if_splits)

lemma days_before_month_nonneg:
  assumes "1 \<le> m" and "m \<le> 12"
  shows "0 \<le> days_before_month y m"
  using month_cases [OF assms(1,2)]
  by (auto simp: days_before_month_def DAYS_BEFORE_MONTH_def)


lemma ymd2ord_bounds:
  assumes "1 \<le> y" and "y \<le> 9999" and "1 \<le> m" and "m \<le> 12" and "1 \<le> d"
    and "d \<le> days_in_month y m"
  shows "1 \<le> ymd2ord y m d" and "ymd2ord y m d \<le> MAXORDINAL"
proof -
  show "1 \<le> ymd2ord y m d"
    using days_before_year_bounds(1) [OF assms(1,2)]
      days_before_month_nonneg [OF assms(3,4), of y] assms(5)
    by (simp add: ymd2ord_def)
  have "is_leap y \<Longrightarrow> y \<le> 9998"
    using assms(2) by (cases "y = 9999") (simp_all add: is_leap_def)
  then show "ymd2ord y m d \<le> MAXORDINAL"
    using days_before_year_bounds(2) [OF assms(1,2)] month_day_bounds [OF assms(3,4,6)] assms(2)
    by (cases "is_leap y") (simp_all add: ymd2ord_def MAXORDINAL_def)
qed

lemma filter_all_digits: "all_digits fd \<Longrightarrow> filter is_digit fd = fd"
  by (simp add: all_digits_def list_all_iff)

lemma day_field_pos:
  assumes "day_field fd"
  shows "1 \<le> nat_of_digits (filter is_digit fd)"
proof (cases "all_digits fd")
  case True
  have "hd fd \<noteq> CHR '' '' \<or> length fd \<noteq> 2"
    using True by (cases fd) (auto simp: all_digits_def is_digit_def)
  then show ?thesis
    using assms True unfolding day_field_def by (auto simp: filter_all_digits)
next
  case False
  with assms have f: "length fd = 2" "hd fd = CHR '' ''" "is_digit (fd ! 1)" "fd ! 1 \<noteq> CHR ''0''"
    by (simp_all add: day_field_def)
  then obtain c where fd: "fd = [CHR '' '', c]"
    by (cases fd; cases "tl fd") auto
  with f have c: "is_digit c" "c \<noteq> CHR ''0''" by auto
  have sp: "\<not> is_digit (CHR '' '')" by (simp add: is_digit_def)
  from c have "1 \<le> digit_val c" by (auto simp: is_digit_def digit_val_def)
  then show ?thesis
    unfolding fd using c sp by (simp add: nat_of_digits_def)
qed


lemma strptime_date_range:
  assumes "strptime_date s = Some ordinal"
  shows "1 \<le> ordinal \<and> ordinal \<le> MAXORDINAL"
proof -
  from assms obtain fy fm fd where sp: "split_on (CHR ''-'') s = [fy, fm, fd]"
    by (auto simp: strptime_date_def split: list.splits)
  let ?y = "int (nat_of_digits fy)" and ?m = "nat_of_digits fm"
    and ?d = "int (nat_of_digits (filter is_digit fd))"
  from assms sp have ok: "year_field fy" "month_field fm" "day_field fd"
    and y1: "1 \<le> ?y" and dd: "?d \<le> days_in_month ?y ?m" and o: "ordinal = ymd2ord ?y ?m ?d"
    by (simp_all add: strptime_date_def Let_def split: if_splits)
  have "nat_of_digits fy < 10 ^ 4"
    using nat_of_digits_bound [of fy] ok(1) by (simp add: year_field_def)
  then have y2: "?y \<le> 9999" by simp
  have m: "1 \<le> ?m" "?m \<le> 12"
    using ok(2) by (simp_all add: month_field_def)
  have d1: "1 \<le> ?d"
    using day_field_pos [OF ok(3)] by simp
  show ?thesis
    using ymd2ord_bounds [OF y1 y2 m d1 dd] o by simp
qed

section \<open>Facts about the store\<close>

lemma find_map_key:
  assumes "\<And>r. P (f r) = P r"
  shows "find P (map f xs) = map_option f (find P xs)"
  using assms by (induction xs) auto

lemma set_columns_key [simp]:
  "attendance_user_id (set_columns li lo h st nt r) = attendance_user_id r"
  "attendance_date (set_columns li lo h st nt r) = attendance_date r"
  "attendance_id (set_columns li lo h st nt r) = attendance_id r"
  by (simp_all add: set_columns_def)

lemma get_after_update:
  "get_attendance_for_date
     (d\<lparr>attendance := map (\<lambda>r. if attendance_id r = i then set_columns li lo h st nt r else r)
                        (attendance d)\<rparr>) u dt
   = map_option (\<lambda>r. if attendance_id r = i then set_columns li lo h st nt r else r)
       (get_attendance_for_date d u dt)"
  unfolding get_attendance_for_date_def
  by (simp add: find_map_key)

lemma find_append:
  "find P (xs @ ys) = (case find P xs of None \<Rightarrow> find P ys | Some x \<Rightarrow> Some x)"
  by (induction xs) auto

lemma upsert_existing:
  assumes "get_attendance_for_date d u dt = Some r"
    and "upsert_attendance d u dt li lo h st nt = Inr d'"
  shows "get_attendance_for_date d' u dt = Some (set_columns li lo h st nt r)"
    and "users d' = users d" and "login_history d' = login_history d"
  using assms
  by (auto simp: upsert_attendance_def get_after_update split: if_splits)

lemma upsert_existing_error:
  assumes "get_attendance_for_date d u dt = Some r"
  shows "upsert_attendance d u dt li lo h st nt = Inl e
     \<Longrightarrow> \<not> truthy li \<and> \<not> truthy lo \<and> h = None \<and> \<not> truthy st \<and> nt = None"
  using assms
  by (auto simp: upsert_attendance_def split: if_splits)

lemma get_after_insert:
  "get_attendance_for_date (d\<lparr>attendance := attendance d @ [x], attendance_seq := n\<rparr>) u dt
   = (case get_attendance_for_date d u dt of
        None \<Rightarrow> if attendance_user_id x = u \<and> attendance_date x = dt then Some x else None
      | Some r \<Rightarrow> Some r)"
  by (auto simp: get_attendance_for_date_def find_append split: option.splits)

lemma upsert_other:
  assumes "upsert_attendance d u2 dt2 li lo h st nt = Inr d'"
    and "get_attendance_for_date d u dt = Some r"
  shows "get_attendance_for_date d' u dt = Some r
       \<or> get_attendance_for_date d' u dt = Some (set_columns li lo h st nt r)"
proof (cases "get_attendance_for_date d u2 dt2")
  case None
  with assms show ?thesis
    by (auto simp: upsert_attendance_def insert_attendance_def get_after_insert
        split: if_splits option.splits)
next
  case (Some e)
  with assms show ?thesis
    by (auto simp: upsert_attendance_def get_after_update split: if_splits)
qed

lemma upsert_users:
  "upsert_attendance d u dt li lo h st nt = Inr d' \<Longrightarrow> users d' = users d"
  by (auto simp: upsert_attendance_def insert_attendance_def split: if_splits option.splits)

lemma upsert_history:
  "upsert_attendance d u dt li lo h st nt = Inr d' \<Longrightarrow> login_history d' = login_history d"
  by (auto simp: upsert_attendance_def insert_attendance_def split: if_splits option.splits)

lemma upsert_new:
  assumes "get_attendance_for_date d u dt = None"
    and "upsert_attendance d u dt li lo h st nt = Inr d'"
  shows "\<exists>s. st = Some s \<and> get_attendance_for_date d' u dt =
     Some \<lparr>attendance_id = attendance_seq d + 1, attendance_user_id = u,
          attendance_date = dt, login_time = li, logout_time = lo,
          hours_worked = (case h of None \<Rightarrow> 0 | Some x \<Rightarrow> x), status = s, attendance_notes = nt\<rparr>"
  using assms
  by (auto simp: upsert_attendance_def insert_attendance_def get_after_insert
      split: if_splits option.splits)

lemma upsert_mark_ok:
  assumes "user_exists d u"
  shows "\<exists>d'. upsert_attendance d u dt None None (Some 0) (Some lt) (Some nt) = Inr d'"
  using assms
  by (auto simp: upsert_attendance_def insert_attendance_def truthy_def split: option.splits)

lemma set_columns_mark:
  "login_time (set_columns None None (Some 0) (Some lt) (Some nt) r) = login_time r"
  "logout_time (set_columns None None (Some 0) (Some lt) (Some nt) r) = logout_time r"
  "hours_worked (set_columns None None (Some 0) (Some lt) (Some nt) r) = 0"
  "status (set_columns None None (Some 0) (Some lt) (Some nt) r) = (if lt = [] then status r else lt)"
  "attendance_notes (set_columns None None (Some 0) (Some lt) (Some nt) r) = Some nt"
  by (simp_all add: set_columns_def truthy_def)

subsection \<open>The loop of \<^verbatim>\<open>mark_leave\<close>\<close>

lemma mark_leave_loop_keeps:
  assumes "user_exists d u" and "get_attendance_for_date d u dt = Some r"
  shows "\<exists>r'. get_attendance_for_date (fst (mark_leave_loop d u cur e lt nt c)) u dt = Some r'
           \<and> login_time r' = login_time r \<and> logout_time r' = logout_time r
           \<and> (status r = lt \<and> hours_worked r = 0 \<longrightarrow> status r' = lt \<and> hours_worked r' = 0)"
  using assms
proof (induction d u cur e lt nt c arbitrary: r rule: mark_leave_loop.induct)
  case (1 d u cur e lt nt c)
  show ?case
  proof (cases "cur \<le> e")
    case False
    then show ?thesis using "1.prems" by (simp add: mark_leave_loop.simps [of d u cur e lt nt c])
  next
    case True
    obtain d' where up: "upsert_attendance d u (strftime_date cur) None None (Some 0)
        (Some lt) (Some nt) = Inr d'"
      using upsert_mark_ok [OF "1.prems"(1)] by blast
    have ue: "user_exists d' u"
      using upsert_users [OF up] "1.prems"(1) by (simp add: user_exists_def get_user_by_id_def)
    from upsert_other [OF up "1.prems"(2)]
    obtain r1 where r1: "get_attendance_for_date d' u dt = Some r1"
      and k1: "login_time r1 = login_time r" "logout_time r1 = logout_time r"
        "status r = lt \<and> hours_worked r = 0 \<longrightarrow> status r1 = lt \<and> hours_worked r1 = 0"
      by (auto simp: set_columns_mark)
    show ?thesis
    proof (cases "0 < cur + 1 \<and> cur + 1 \<le> MAXORDINAL")
      case False
      then show ?thesis using True up r1 k1
        by (auto simp: mark_leave_loop.simps [of d u cur e lt nt c])
    next
      case go: True
      from "1.IH" [OF True up go ue r1]
      obtain r' where "get_attendance_for_date
           (fst (mark_leave_loop d' u (cur + 1) e lt nt (c + 1))) u dt = Some r'"
         "login_time r' = login_time r1" "logout_time r' = logout_time r1"
         "status r1 = lt \<and> hours_worked r1 = 0 \<longrightarrow> status r' = lt \<and> hours_worked r' = 0"
        by blast
      then show ?thesis using True up go k1
        by (simp add: mark_leave_loop.simps [of d u cur e lt nt c])
    qed
  qed
qed



lemma mark_leave_loop_marks:
  assumes "user_exists d u" and "get_attendance_for_date d u (strftime_date day) = Some r"
    and "cur \<le> day" and "day \<le> e" and "0 \<le> cur" and "day \<le> MAXORDINAL" and "lt \<noteq> []"
  shows "\<exists>r'. get_attendance_for_date (fst (mark_leave_loop d u cur e lt nt c)) u
                 (strftime_date day) = Some r'
           \<and> login_time r' = login_time r \<and> logout_time r' = logout_time r
           \<and> status r' = lt \<and> hours_worked r' = 0"
  using assms
proof (induction d u cur e lt nt c arbitrary: r rule: mark_leave_loop.induct)
  case (1 d u cur e lt nt c)
  have True: "cur \<le> e" using "1.prems" by simp
  obtain d' where up: "upsert_attendance d u (strftime_date cur) None None (Some 0)
      (Some lt) (Some nt) = Inr d'"
    using upsert_mark_ok [OF "1.prems"(1)] by blast
  have ue: "user_exists d' u"
    using upsert_users [OF up] "1.prems"(1) by (simp add: user_exists_def get_user_by_id_def)
  show ?case
  proof (cases "cur = day")
    case here: True
    let ?r1 = "set_columns None None (Some 0) (Some lt) (Some nt) r"
    have r1: "get_attendance_for_date d' u (strftime_date day) = Some ?r1"
      using upsert_existing(1) [OF _ up] "1.prems"(2) here by simp
    have q1: "status ?r1 = lt \<and> hours_worked ?r1 = 0"
      using "1.prems"(7) by (simp add: set_columns_mark)
    show ?thesis
    proof (cases "0 < cur + 1 \<and> cur + 1 \<le> MAXORDINAL")
      case False
      then show ?thesis using True up r1 q1
        by (auto simp: mark_leave_loop.simps [of d u cur e lt nt c] set_columns_mark)
    next
      case go: True
      from mark_leave_loop_keeps [OF ue r1, of "cur + 1" e lt nt "c + 1"] q1
      show ?thesis using True up go
        by (simp add: mark_leave_loop.simps [of d u cur e lt nt c] set_columns_mark)
    qed
  next
    case False
    then have lt': "cur < day" using "1.prems"(3) by simp
    then have go: "0 < cur + 1 \<and> cur + 1 \<le> MAXORDINAL"
      using "1.prems"(5,6) by simp
    from upsert_other [OF up "1.prems"(2)]
    obtain r1 where r1: "get_attendance_for_date d' u (strftime_date day) = Some r1"
      and k1: "login_time r1 = login_time r" "logout_time r1 = logout_time r"
      by (auto simp: set_columns_mark)
    have nx: "cur + 1 \<le> day" using lt' by simp
    have z: "0 \<le> cur + 1" using "1.prems"(5) by simp
    from "1.IH" [OF True up go ue r1 nx "1.prems"(4) z "1.prems"(6,7)]
    show ?thesis using True up go k1
      by (simp add: mark_leave_loop.simps [of d u cur e lt nt c])
  qed
qed

lemma find_None_keys:
  "find (\<lambda>r. attendance_user_id r = u \<and> attendance_date r = dt) rs = None
   \<Longrightarrow> (u, dt) \<notin> set (map (\<lambda>r. (attendance_user_id r, attendance_date r)) rs)"
  by (induction rs) (auto split: if_splits)

lemma upsert_keys:
  assumes "upsert_attendance d u dt li lo h st nt = Inr d'"
  shows "attendance_keys d' = attendance_keys d
       \<or> (attendance_keys d' = attendance_keys d @ [(u, dt)] \<and> (u, dt) \<notin> set (attendance_keys d))"
proof (cases "get_attendance_for_date d u dt")
  case None
  then have "(u, dt) \<notin> set (attendance_keys d)"
    unfolding get_attendance_for_date_def attendance_keys_def by (rule find_None_keys)
  then show ?thesis using assms None
    by (auto simp: upsert_attendance_def insert_attendance_def attendance_keys_def
        split: option.splits if_splits)
next
  case (Some e)
  have "map (\<lambda>r. (attendance_user_id r, attendance_date r))
          (map (\<lambda>r. if attendance_id r = attendance_id e then set_columns li lo h st nt r else r)
             (attendance d))
        = map (\<lambda>r. (attendance_user_id r, attendance_date r)) (attendance d)"
    by (induction "attendance d") (auto simp: comp_def)
  then show ?thesis using assms Some
    by (auto simp: upsert_attendance_def attendance_keys_def split: if_splits)
qed

lemma upsert_one_row:
  assumes "one_row_per_day d" and "upsert_attendance d u dt li lo h st nt = Inr d'"
  shows "one_row_per_day d'"
  using upsert_keys [OF assms(2)] assms(1) by (auto simp: one_row_per_day_def)

lemma status_keys [simp]:
  "attendance_keys (update_user_login_status d u s) = attendance_keys d"
  by (simp add: attendance_keys_def update_user_login_status_def)

lemma log_history_keys:
  "log_history d u a = Inr d' \<Longrightarrow> attendance_keys d' = attendance_keys d"
  by (auto simp: attendance_keys_def log_history_def split: if_splits)

lemma perform_login_one_row:
  assumes "one_row_per_day d"
  shows "one_row_per_day (fst (perform_login d now u nm))"
proof -
  let ?d1 = "update_user_login_status d u 1"
  have d1: "one_row_per_day ?d1" using assms by (simp add: one_row_per_day_def)
  show ?thesis
  proof (cases "log_history ?d1 u ''login''")
    case (Inl e)
    then show ?thesis using d1 by (simp add: perform_login_def Let_def)
  next
    case (Inr d2)
    have d2: "one_row_per_day d2"
      using log_history_keys [OF Inr] d1 by (simp add: one_row_per_day_def)
    show ?thesis
    proof (cases "upsert_attendance d2 u (strftime_date (dt_date now))
        (Some (strftime_time now)) None None (Some ''Present'') None")
      case (Inl e)
      then show ?thesis using Inr d2 by (simp add: perform_login_def Let_def)
    next
      case up: (Inr d3)
      then show ?thesis using Inr upsert_one_row [OF d2 up] by (simp add: perform_login_def Let_def)
    qed
  qed
qed

lemma perform_logout_one_row:
  assumes "one_row_per_day d"
  shows "one_row_per_day (fst (perform_logout up d now u nm act))"
proof -
  let ?d1 = "update_user_login_status d u 0"
  have d1: "one_row_per_day ?d1" using assms by (simp add: one_row_per_day_def)
  show ?thesis
  proof (cases "log_history ?d1 u act")
    case (Inl e)
    then show ?thesis using d1 by (simp add: perform_logout_def Let_def)
  next
    case (Inr d2)
    have d2: "one_row_per_day d2"
      using log_history_keys [OF Inr] d1 by (simp add: one_row_per_day_def)
    let ?hw = "hours_between up (get_attendance_for_date d2 u (strftime_date (dt_date now)))
        (strftime_time now)"
    show ?thesis
    proof (cases "upsert_attendance d2 u (strftime_date (dt_date now)) None
        (Some (strftime_time now)) (Some ?hw) None None")
      case (Inl e)
      then show ?thesis using Inr d2 by (simp add: perform_logout_def Let_def)
    next
      case up: (Inr d3)
      then show ?thesis using Inr upsert_one_row [OF d2 up]
        by (simp add: perform_logout_def Let_def)
    qed
  qed
qed

lemma mark_leave_loop_one_row:
  assumes "one_row_per_day d"
  shows "one_row_per_day (fst (mark_leave_loop d u cur e lt nt c))"
  using assms
proof (induction d u cur e lt nt c rule: mark_leave_loop.induct)
  case (1 d u cur e lt nt c)
  show ?case
  proof (cases "cur \<le> e")
    case False
    then show ?thesis using "1.prems" by (simp add: mark_leave_loop.simps [of d u cur e lt nt c])
  next
    case True
    show ?thesis
    proof (cases "upsert_attendance d u (strftime_date cur) None None (Some 0)
        (Some lt) (Some nt)")
      case (Inl x)
      then show ?thesis using True "1.prems"
        by (simp add: mark_leave_loop.simps [of d u cur e lt nt c])
    next
      case (Inr d')
      have d': "one_row_per_day d'" using upsert_one_row [OF "1.prems" Inr] .
      show ?thesis
      proof (cases "0 < cur + 1 \<and> cur + 1 \<le> MAXORDINAL")
        case False
        then show ?thesis using True Inr d'
          by (auto simp: mark_leave_loop.simps [of d u cur e lt nt c])
      next
        case go: True
        from "1.IH" [OF True Inr go d']
        show ?thesis using True Inr go
          by (simp add: mark_leave_loop.simps [of d u cur e lt nt c])
      qed
    qed
  qed
qed

lemma mark_leave_one_row:
  assumes "one_row_per_day d"
  shows "one_row_per_day (fst (mark_leave d u sd ed lt nt))"
proof (cases "strptime_date sd")
  case None
  then show ?thesis using assms by (simp add: mark_leave_def)
next
  case s: (Some s)
  show ?thesis
  proof (cases "strptime_date ed")
    case None
    then show ?thesis using assms s by (simp add: mark_leave_def)
  next
    case e: (Some e)
    show ?thesis
    proof (cases "s > e")
      case True
      then show ?thesis using assms s e by (simp add: mark_leave_def)
    next
      case False
      have "fst (mark_leave d u sd ed lt nt) = fst (mark_leave_loop d u s e lt nt 0)"
        using s e False by (simp add: mark_leave_def split: prod.splits sum.splits)
      then show ?thesis using mark_leave_loop_one_row [OF assms] by simp
    qed
  qed
qed

lemma delete_user_one_row:
  assumes "one_row_per_day d"
  shows "one_row_per_day (delete_user d u)"
proof -
  have "attendance_keys (delete_user d u)
      = filter (\<lambda>k. fst k \<noteq> u) (attendance_keys d)"
    by (simp add: attendance_keys_def delete_user_def filter_map comp_def)
  then show ?thesis using assms by (simp add: one_row_per_day_def)
qed

lemma toggle_one_row:
  assumes "one_row_per_day d" and "handle_qr_login_toggle up d now qr = Inr (d', r)"
  shows "one_row_per_day d'"
proof (cases qr)
  case Not_json
  then show ?thesis using assms by (simp add: handle_qr_login_toggle_def)
next
  case Json_other
  then show ?thesis using assms by (simp add: handle_qr_login_toggle_def)
next
  case (Json_object e)
  show ?thesis
  proof (cases "truthy e")
    case False
    then show ?thesis using assms Json_object by (simp add: handle_qr_login_toggle_def)
  next
    case True
    show ?thesis
    proof (cases "get_user_by_employee_id d (the e)")
      case None
      then show ?thesis using assms Json_object True by (simp add: handle_qr_login_toggle_def)
    next
      case (Some u)
      have "d' = fst (perform_logout up d now (users_id u) (name u) ''logout'')
          \<or> d' = fst (perform_login d now (users_id u) (name u))"
        using assms(2) Json_object True Some
        by (auto simp: handle_qr_login_toggle_def split: if_splits)
      then show ?thesis
        using perform_logout_one_row [OF assms(1)] perform_login_one_row [OF assms(1)] by auto
    qed
  qed
qed

lemma turn_one_row:
  assumes "one_row_per_day (snd st)"
  shows "one_row_per_day (snd (fst (update_camera_feed_turn up st tk)))"
proof (cases st)
  case (Pair p d)
  then have d: "one_row_per_day d" using assms by simp
  show ?thesis
  proof (cases "camera_running p \<and> ret tk \<and> current_time tk - last_scan_time p > scan_cooldown p")
    case False
    then show ?thesis using Pair d by (auto simp: update_camera_feed_turn_def)
  next
    case True
    show ?thesis
    proof (cases "scan_qr_from_frame tk")
      case None
      then show ?thesis using Pair d True by (simp add: update_camera_feed_turn_def)
    next
      case (Some qr)
      show ?thesis
      proof (cases "handle_qr_login_toggle up d (wall_clock tk) qr")
        case (Inl e)
        then show ?thesis using Pair d True Some
          by (simp add: update_camera_feed_turn_def Let_def)
      next
        case (Inr x)
        obtain d' r where x: "x = (d', r)" by (cases x)
        have "one_row_per_day d'" using toggle_one_row [OF d] Inr x by simp
        then show ?thesis using Pair True Some Inr x
          by (simp add: update_camera_feed_turn_def Let_def)
      qed
    qed
  qed
qed

lemma camera_one_row:
  assumes "one_row_per_day (snd st)"
  shows "one_row_per_day (snd (fst (update_camera_feed up st tks)))"
  using assms
proof (induction tks arbitrary: st)
  case Nil
  then show ?case by simp
next
  case (Cons tk tks)
  obtain st' out where t: "update_camera_feed_turn up st tk = (st', out)"
    by (cases "update_camera_feed_turn up st tk")
  have "one_row_per_day (snd st')" using turn_one_row [OF Cons.prems, of up tk] t by simp
  from Cons.IH [OF this] show ?case using t by (auto split: prod.splits)
qed

lemma digit_cases:
  assumes "n < 10"
  shows "n \<in> {0, 1, 2, 3, 4, 5, 6, 7, 8, 9::nat}"
  using assms by (simp; arith)

lemma digit_char_facts:
  assumes "n < 10"
  shows "is_digit (digit_char n)" and "digit_val (digit_char n) = n"
    and "digit_char n \<noteq> CHR '':''"
  using digit_cases [OF assms]
  by (auto simp: digit_char_def is_digit_def digit_val_def)

lemma fmt_02d_two:
  assumes "n < 100"
  shows "fmt_02d n = [digit_char (n div 10), digit_char (n mod 10)]"
proof (cases "n < 10")
  case True
  then show ?thesis
    by (simp add: fmt_02d_def zfill_def str_nat.simps [of n] digit_char_def)
next
  case False
  then have "n div 10 < 10" using assms by simp
  then show ?thesis using False
    by (simp add: fmt_02d_def zfill_def str_nat.simps [of n] str_nat.simps [of "n div 10"])
qed

lemma split_on_time:
  assumes "a \<noteq> CHR '':''" "b \<noteq> CHR '':''" "c \<noteq> CHR '':''" "d \<noteq> CHR '':''"
    "e \<noteq> CHR '':''" "f \<noteq> CHR '':''"
  shows "split_on (CHR '':'') ([a, b] @ '':'' @ [c, d] @ '':'' @ [e, f]) = [[a, b], [c, d], [e, f]]"
  using assms by simp

lemma two_digits_value:
  assumes "x < 10" and "y < 10"
  shows "nat_of_digits [digit_char x, digit_char y] = 10 * x + y"
    and "all_digits [digit_char x, digit_char y]"
  using digit_char_facts [OF assms(1)] digit_char_facts [OF assms(2)]
  by (simp_all add: nat_of_digits_def all_digits_def)

lemma strptime_strftime_time:
  assumes "valid_datetime t"
  shows "strptime_time (strftime_time t) = Some (seconds_of_day t)"
proof -
  from assms have h: "hour t < 24" and m: "minute t < 60" and s: "second t < 60"
    by (simp_all add: valid_datetime_def)
  define h1 h2 m1 m2 s1 s2 where "h1 = hour t div 10" and "h2 = hour t mod 10"
    and "m1 = minute t div 10" and "m2 = minute t mod 10"
    and "s1 = second t div 10" and "s2 = second t mod 10"
  have lt: "h1 < 10" "h2 < 10" "m1 < 10" "m2 < 10" "s1 < 10" "s2 < 10"
    using h m s by (simp_all add: h1_def h2_def m1_def m2_def s1_def s2_def)
  have vals: "10 * h1 + h2 = hour t" "10 * m1 + m2 = minute t" "10 * s1 + s2 = second t"
    by (simp_all add: h1_def h2_def m1_def m2_def s1_def s2_def)
  have fm: "strftime_time t = [digit_char h1, digit_char h2] @ '':'' @
      [digit_char m1, digit_char m2] @ '':'' @ [digit_char s1, digit_char s2]"
    using h m s
    by (simp add: strftime_time_def fmt_02d_two h1_def h2_def m1_def m2_def s1_def s2_def)
  have sp: "split_on (CHR '':'') (strftime_time t) =
      [[digit_char h1, digit_char h2], [digit_char m1, digit_char m2],
       [digit_char s1, digit_char s2]]"
    unfolding fm
    by (rule split_on_time) (simp_all add: digit_char_facts(3) lt)
  show ?thesis
    using h m s vals
    by (simp add: strptime_time_def sp time_field_def two_digits_value lt seconds_of_day_def)
qed

lemma round_hours_nonneg: "0 \<le> s \<Longrightarrow> 0 \<le> round_hours up s"
proof -
  assume "0 \<le> s"
  then have "0 \<le> s div 36" by simp
  then show ?thesis by (simp add: round_hours_def Let_def)
qed

lemma round_hours_neg: 
  assumes "s < - 18"
  shows "round_hours up s < 0"
proof -
  have q: "36 * (s div 36) \<le> s" "s < 36 * (s div 36) + 36" "s mod 36 = s - 36 * (s div 36)"
    by presburger+
  show ?thesis
  proof (cases "s div 36 \<le> - 2")
    case True
    then show ?thesis by (simp add: round_hours_def Let_def)
  next
    case False
    then have "s div 36 = - 1" using q assms by linarith
    then have "s mod 36 < 18" using q(3) assms by simp
    then show ?thesis using \<open>s div 36 = - 1\<close> by (simp add: round_hours_def Let_def)
  qed
qed

lemma get_after_status [simp]:
  "get_attendance_for_date (update_user_login_status d u s) u' dt = get_attendance_for_date d u' dt"
  by (simp add: get_attendance_for_date_def update_user_login_status_def)

lemma user_exists_status [simp]:
  "user_exists (update_user_login_status d u s) u' = user_exists d u'"
proof -
  have "find (\<lambda>x. users_id x = u')
          (map (\<lambda>x. if users_id x = u then x\<lparr>is_logged_in := s\<rparr> else x) (users d))
        = map_option (\<lambda>x. if users_id x = u then x\<lparr>is_logged_in := s\<rparr> else x)
            (find (\<lambda>x. users_id x = u') (users d))"
    by (rule find_map_key) simp
  then show ?thesis
    by (simp add: user_exists_def get_user_by_id_def update_user_login_status_def)
qed

lemma log_history_ok:
  assumes "user_exists d u"
  shows "log_history d u a
      = Inr (d\<lparr>login_history := login_history d @ [\<lparr>history_user_id = u, action = a\<rparr>]\<rparr>)"
  using assms by (simp add: log_history_def)

lemma get_after_history [simp]:
  "get_attendance_for_date (d\<lparr>login_history := hs\<rparr>) u dt = get_attendance_for_date d u dt"
  by (simp add: get_attendance_for_date_def)

lemmas time_eval =
  strftime_time_def strptime_time_def time_field_def all_digits_def is_digit_def
  nat_of_digits_def digit_val_def fmt_02d_def zfill_def str_nat.simps digit_char_def

lemmas engine_eval =
  perform_login_def perform_logout_def update_user_login_status_def log_history_def
  upsert_attendance_def insert_attendance_def set_columns_def truthy_def hours_between_def
  round_hours_def Let_def

lemma upsert_history_indep:
  "upsert_attendance (d\<lparr>login_history := hs\<rparr>) u dt li lo h st nt
   = (case upsert_attendance d u dt li lo h st nt of
        Inl e \<Rightarrow> Inl e
      | Inr d' \<Rightarrow> Inr (d'\<lparr>login_history := hs\<rparr>))"
  by (auto simp add: upsert_attendance_def insert_attendance_def get_attendance_for_date_def
      user_exists_def get_user_by_id_def split: option.splits)

lemma perform_logout_unfold:
  assumes "user_exists d u"
  shows "perform_logout up d now u nm act =
    (let d1 = update_user_login_status d u 0;
         hs = login_history d @ [\<lparr>history_user_id = u, action = act\<rparr>];
         tm = strftime_time now; dt = strftime_date (dt_date now);
         hw = hours_between up (get_attendance_for_date d u dt) tm
     in case upsert_attendance d1 u dt None (Some tm) (Some hw) None None of
          Inl e \<Rightarrow> (d1\<lparr>login_history := hs\<rparr>, Logout_Error e)
        | Inr d3 \<Rightarrow> (d3\<lparr>login_history := hs\<rparr>,
                     Success (nm @ '' logged out at '' @ tm @ ''.'')))"
proof -
  have lh: "login_history (update_user_login_status d u 0) = login_history d"
    by (simp add: update_user_login_status_def)
  show ?thesis
    using assms
    by (simp add: perform_logout_def Let_def log_history_ok lh upsert_history_indep
        split: sum.splits)
qed

lemma strftime_time_truthy: "truthy (Some (strftime_time now))"
  by (simp add: truthy_def strftime_time_def)

lemma upsert_login_ok:
  assumes "user_exists d u" and "truthy (Some tm)"
  shows "\<exists>d'. upsert_attendance d u dt (Some tm) None None (Some ''Present'') None = Inr d'"
  using assms
  by (auto simp: upsert_attendance_def insert_attendance_def truthy_def split: option.splits)

lemma get_emp_after_status:
  "get_user_by_employee_id (update_user_login_status d i s) e
   = map_option (\<lambda>x. if users_id x = i then x\<lparr>is_logged_in := s\<rparr> else x)
       (get_user_by_employee_id d e)"
  unfolding get_user_by_employee_id_def update_user_login_status_def
  by (simp add: find_map_key)

lemma emp_exists:
  assumes "get_user_by_employee_id d e = Some u"
  shows "user_exists d (users_id u)"
proof -
  from assms have "u \<in> set (users d)"
    by (auto simp: get_user_by_employee_id_def find_Some_iff)
  then show ?thesis
    by (auto simp: user_exists_def get_user_by_id_def find_None_iff)
qed

lemma perform_login_result:
  assumes "user_exists d u"
  shows "\<exists>d3. perform_login d now u nm
            = (d3, Success (nm @ '' logged in at '' @ strftime_time now @ ''.''))
          \<and> users d3 = users (update_user_login_status d u 1)
          \<and> get_attendance_for_date d3 u (strftime_date (dt_date now)) \<noteq> None"
proof -
  define tm where "tm = strftime_time now"
  define dt where "dt = strftime_date (dt_date now)"
  define d1 where "d1 = update_user_login_status d u 1"
  define d2 where "d2 = d1\<lparr>login_history :=
      login_history d1 @ [\<lparr>history_user_id = u, action = ''login''\<rparr>]\<rparr>"
  have tr: "truthy (Some tm)" unfolding tm_def by (rule strftime_time_truthy)
  have ue1: "user_exists d1 u" using assms by (simp add: d1_def)
  have lh: "log_history d1 u ''login'' = Inr d2"
    unfolding d2_def by (rule log_history_ok [OF ue1])
  have ue2: "user_exists d2 u"
    using ue1 by (simp add: d2_def user_exists_def get_user_by_id_def)
  obtain d3 where up: "upsert_attendance d2 u dt (Some tm) None None (Some ''Present'') None
      = Inr d3"
    using upsert_login_ok [OF ue2 tr] by blast
  have pl: "perform_login d now u nm = (d3, Success (nm @ '' logged in at '' @ tm @ ''.''))"
    using lh up by (simp add: perform_login_def Let_def tm_def dt_def d1_def)
  have us: "users d3 = users d1"
    using upsert_users [OF up] by (simp add: d2_def)
  have row: "get_attendance_for_date d3 u dt \<noteq> None"
  proof (cases "get_attendance_for_date d2 u dt")
    case None
    from upsert_new [OF this up] show ?thesis by auto
  next
    case (Some old)
    from upsert_existing(1) [OF this up] show ?thesis by simp
  qed
  show ?thesis
    using pl us row unfolding tm_def dt_def d1_def by simp
qed

lemma perform_logout_result:
  assumes "user_exists d u"
    and "get_attendance_for_date d u (strftime_date (dt_date now)) \<noteq> None"
  shows "\<exists>d3. perform_logout up d now u nm act
            = (d3, Success (nm @ '' logged out at '' @ strftime_time now @ ''.''))"
proof -
  obtain r where r: "get_attendance_for_date (update_user_login_status d u 0) u
      (strftime_date (dt_date now)) = Some r"
    using assms(2) by auto
  have "\<exists>d'. upsert_attendance (update_user_login_status d u 0) u
      (strftime_date (dt_date now)) None (Some (strftime_time now)) (Some h) None None = Inr d'"
    for h
    using r strftime_time_truthy [of now] by (simp add: upsert_attendance_def)
  then show ?thesis
    unfolding perform_logout_unfold [OF assms(1)] Let_def
    by (metis (no_types, lifting) sum.simps(6))
qed

lemma turn_rule:
  assumes "camera_running p" and "ret tk" and "scan_qr_from_frame tk = Some qr"
  shows "(current_time tk - last_scan_time p \<le> scan_cooldown p \<longrightarrow>
            update_camera_feed_turn up (p, d) tk = ((p, d), Not_scanned))
       \<and> (current_time tk - last_scan_time p > scan_cooldown p \<longrightarrow>
            (case handle_qr_login_toggle up d (wall_clock tk) qr of
               Inl e \<Rightarrow> update_camera_feed_turn up (p, d) tk
                   = ((p\<lparr>last_scan_time := current_time tk, camera_running := False\<rparr>, d),
                      Stopped e)
             | Inr (d', r) \<Rightarrow> update_camera_feed_turn up (p, d) tk
                   = ((p\<lparr>last_scan_time := current_time tk\<rparr>, d'), Toggled r)))"
  using assms
  by (auto simp: update_camera_feed_turn_def Let_def split: sum.splits prod.splits)

lemma three_scans:
  assumes T: "3 < T"
    and u: "get_user_by_employee_id d e = Some u" and out: "is_logged_in u = 0"
    and e: "e \<noteq> []"
    and day: "dt_date c3 = dt_date c1"
  shows "snd (update_camera_feed up (started_panel, d)
           [\<lparr>ret = True, current_time = T, scan_qr_from_frame = Some (Json_object (Some e)),
             wall_clock = c1\<rparr>,
            \<lparr>ret = True, current_time = T + 1,
             scan_qr_from_frame = Some (Json_object (Some e)), wall_clock = c2\<rparr>,
            \<lparr>ret = True, current_time = T + 4,
             scan_qr_from_frame = Some (Json_object (Some e)), wall_clock = c3\<rparr>])
         = [Toggled (Success (name u @ '' logged in at '' @ strftime_time c1 @ ''.'')),
            Not_scanned,
            Toggled (Success (name u @ '' logged out at '' @ strftime_time c3 @ ''.''))]"
proof -
  have ue: "user_exists d (users_id u)" by (rule emp_exists [OF u])
  obtain d3 where li: "perform_login d c1 (users_id u) (name u)
        = (d3, Success (name u @ '' logged in at '' @ strftime_time c1 @ ''.''))"
      and us: "users d3 = users (update_user_login_status d (users_id u) 1)"
      and row: "get_attendance_for_date d3 (users_id u) (strftime_date (dt_date c1)) \<noteq> None"
    using perform_login_result [OF ue] by blast
  have t1: "handle_qr_login_toggle up d c1 (Json_object (Some e))
      = Inr (d3, Success (name u @ '' logged in at '' @ strftime_time c1 @ ''.''))"
    using u out e li by (simp add: handle_qr_login_toggle_def truthy_def)
  have "get_user_by_employee_id d3 e
      = get_user_by_employee_id (update_user_login_status d (users_id u) 1) e"
    using us by (simp add: get_user_by_employee_id_def)
  then have u3: "get_user_by_employee_id d3 e = Some (u\<lparr>is_logged_in := 1\<rparr>)"
    using u by (simp add: get_emp_after_status)
  have "user_exists d3 (users_id u)
      = user_exists (update_user_login_status d (users_id u) 1) (users_id u)"
    using us by (simp add: user_exists_def get_user_by_id_def)
  then have ue3: "user_exists d3 (users_id u)" using ue by simp
  obtain d5 where lo: "perform_logout up d3 c3 (users_id u) (name u) ''logout''
        = (d5, Success (name u @ '' logged out at '' @ strftime_time c3 @ ''.''))"
  proof -
    have "get_attendance_for_date d3 (users_id u) (strftime_date (dt_date c3)) \<noteq> None"
      using row day by simp
    from perform_logout_result [OF ue3 this, of up "name u" "''logout''"] that
    show ?thesis by blast
  qed
  have t3: "handle_qr_login_toggle up d3 c3 (Json_object (Some e))
      = Inr (d5, Success (name u @ '' logged out at '' @ strftime_time c3 @ ''.''))"
    using u3 e lo by (simp add: handle_qr_login_toggle_def truthy_def)
  show ?thesis
    using T t1 t3
    by (simp add: update_camera_feed_turn_def started_panel_def Let_def)
qed

lemma upsert_times:
  assumes "upsert_attendance d u2 dt2 None None h st nt = Inr d'"
  shows "Option.bind (get_attendance_for_date d' u dt) login_time
           = Option.bind (get_attendance_for_date d u dt) login_time"
    and "Option.bind (get_attendance_for_date d' u dt) logout_time
           = Option.bind (get_attendance_for_date d u dt) logout_time"
proof -
  have "Option.bind (get_attendance_for_date d' u dt) login_time
           = Option.bind (get_attendance_for_date d u dt) login_time
      \<and> Option.bind (get_attendance_for_date d' u dt) logout_time
           = Option.bind (get_attendance_for_date d u dt) logout_time"
  proof (cases "get_attendance_for_date d u2 dt2")
    case None
    with assms show ?thesis
      by (auto simp: upsert_attendance_def insert_attendance_def get_after_insert
          split: if_splits option.splits)
  next
    case (Some x)
    with assms show ?thesis
      by (cases "get_attendance_for_date d u dt")
        (auto simp: upsert_attendance_def get_after_update set_columns_def truthy_def
          split: if_splits)
  qed
  then show "Option.bind (get_attendance_for_date d' u dt) login_time
           = Option.bind (get_attendance_for_date d u dt) login_time"
    and "Option.bind (get_attendance_for_date d' u dt) logout_time
           = Option.bind (get_attendance_for_date d u dt) logout_time"
    by simp_all
qed

lemma mark_leave_loop_times:
  "Option.bind (get_attendance_for_date (fst (mark_leave_loop d u cur e lt nt c)) u' dt)
       login_time
     = Option.bind (get_attendance_for_date d u' dt) login_time
   \<and> Option.bind (get_attendance_for_date (fst (mark_leave_loop d u cur e lt nt c)) u' dt)
       logout_time
     = Option.bind (get_attendance_for_date d u' dt) logout_time"
proof (induction d u cur e lt nt c rule: mark_leave_loop.induct)
  case (1 d u cur e lt nt c)
  show ?case
  proof (cases "cur \<le> e")
    case False
    then show ?thesis by (simp add: mark_leave_loop.simps [of d u cur e lt nt c])
  next
    case True
    show ?thesis
    proof (cases "upsert_attendance d u (strftime_date cur) None None (Some 0)
        (Some lt) (Some nt)")
      case (Inl err)
      then show ?thesis using True by (simp add: mark_leave_loop.simps [of d u cur e lt nt c])
    next
      case (Inr d')
      note t = upsert_times [OF Inr, of u' dt]
      show ?thesis
      proof (cases "0 < cur + 1 \<and> cur + 1 \<le> MAXORDINAL")
        case False
        then show ?thesis using True Inr t
          by (auto simp: mark_leave_loop.simps [of d u cur e lt nt c])
      next
        case go: True
        from "1.IH" [OF True Inr go] t
        show ?thesis using True Inr go
          by (simp add: mark_leave_loop.simps [of d u cur e lt nt c])
      qed
    qed
  qed
qed

lemma mark_leave_loop_stable:
  assumes "get_attendance_for_date d u dt = Some r"
    and "status r = lt" and "hours_worked r = 0" and "attendance_notes r = Some nt"
  shows "\<exists>r'. get_attendance_for_date (fst (mark_leave_loop d u cur e lt nt c)) u dt = Some r'
           \<and> status r' = lt \<and> hours_worked r' = 0 \<and> attendance_notes r' = Some nt"
  using assms
proof (induction d u cur e lt nt c arbitrary: r rule: mark_leave_loop.induct)
  case (1 d u cur e lt nt c)
  show ?case
  proof (cases "cur \<le> e")
    case False
    then show ?thesis using "1.prems" by (simp add: mark_leave_loop.simps [of d u cur e lt nt c])
  next
    case True
    show ?thesis
    proof (cases "upsert_attendance d u (strftime_date cur) None None (Some 0)
        (Some lt) (Some nt)")
      case (Inl err)
      then show ?thesis using True "1.prems"
        by (simp add: mark_leave_loop.simps [of d u cur e lt nt c])
    next
      case (Inr d')
      from upsert_other [OF Inr "1.prems"(1)]
      obtain r1 where r1: "get_attendance_for_date d' u dt = Some r1"
        and k1: "status r1 = lt" "hours_worked r1 = 0" "attendance_notes r1 = Some nt"
        using "1.prems"(2,3,4) by (auto simp: set_columns_mark)
      show ?thesis
      proof (cases "0 < cur + 1 \<and> cur + 1 \<le> MAXORDINAL")
        case False
        then show ?thesis using True Inr r1 k1
          by (auto simp: mark_leave_loop.simps [of d u cur e lt nt c])
      next
        case go: True
        from "1.IH" [OF True Inr go r1 k1]
        show ?thesis using True Inr go
          by (simp add: mark_leave_loop.simps [of d u cur e lt nt c])
      qed
    qed
  qed
qed

lemma upsert_mark_row:
  assumes "upsert_attendance d u dt None None (Some 0) (Some lt) (Some nt) = Inr d'"
    and "lt \<noteq> []"
  shows "\<exists>r'. get_attendance_for_date d' u dt = Some r'
           \<and> status r' = lt \<and> hours_worked r' = 0 \<and> attendance_notes r' = Some nt"
proof (cases "get_attendance_for_date d u dt")
  case None
  from upsert_new [OF None assms(1)] show ?thesis by auto
next
  case (Some r)
  from upsert_existing(1) [OF Some assms(1)] assms(2) show ?thesis
    by (simp add: set_columns_mark)
qed

lemma mark_leave_loop_sets:
  assumes "user_exists d u" and "cur \<le> day" and "day \<le> e" and "0 \<le> cur"
    and "day \<le> MAXORDINAL" and "lt \<noteq> []"
  shows "\<exists>r'. get_attendance_for_date (fst (mark_leave_loop d u cur e lt nt c)) u
                 (strftime_date day) = Some r'
           \<and> status r' = lt \<and> hours_worked r' = 0 \<and> attendance_notes r' = Some nt"
  using assms
proof (induction d u cur e lt nt c rule: mark_leave_loop.induct)
  case (1 d u cur e lt nt c)
  have True: "cur \<le> e" using "1.prems" by simp
  obtain d' where up: "upsert_attendance d u (strftime_date cur) None None (Some 0)
      (Some lt) (Some nt) = Inr d'"
    using upsert_mark_ok [OF "1.prems"(1)] by blast
  have ue: "user_exists d' u"
    using upsert_users [OF up] "1.prems"(1) by (simp add: user_exists_def get_user_by_id_def)
  show ?case
  proof (cases "cur = day")
    case here: True
    from upsert_mark_row [OF up "1.prems"(6)]
    obtain r1 where r1: "get_attendance_for_date d' u (strftime_date day) = Some r1"
      and q1: "status r1 = lt" "hours_worked r1 = 0" "attendance_notes r1 = Some nt"
      using here by auto
    show ?thesis
    proof (cases "0 < cur + 1 \<and> cur + 1 \<le> MAXORDINAL")
      case False
      then show ?thesis using True up r1 q1
        by (auto simp: mark_leave_loop.simps [of d u cur e lt nt c])
    next
      case go: True
      from mark_leave_loop_stable [OF r1 q1, of "cur + 1" e "c + 1"]
      show ?thesis using True up go
        by (simp add: mark_leave_loop.simps [of d u cur e lt nt c])
    qed
  next
    case False
    then have lt': "cur < day" using "1.prems"(2) by simp
    then have go: "0 < cur + 1 \<and> cur + 1 \<le> MAXORDINAL"
      using "1.prems"(4,5) by simp
    have nx: "cur + 1 \<le> day" using lt' by simp
    have z: "0 \<le> cur + 1" using "1.prems"(4) by simp
    from "1.IH" [OF True up go ue nx "1.prems"(3) z "1.prems"(5,6)]
    show ?thesis using True up go
      by (simp add: mark_leave_loop.simps [of d u cur e lt nt c])
  qed
qed

lemma str_le_refl: "str_le s s"
  by (induction s) auto

lemma str_le_total: "\<not> str_le a b \<Longrightarrow> str_le b a"
proof (induction a b rule: str_le.induct)
  case (3 c cs d ds)
  then show ?case
    by (auto split: if_splits simp: not_less le_less)
qed auto

lemma str_le_antisym: "str_le a b \<Longrightarrow> str_le b a \<Longrightarrow> a = b"
proof (induction a b rule: str_le.induct)
  case (1 t)
  then show ?case by (cases t) auto
next
  case (3 c cs d ds)
  then show ?case by (auto split: if_splits)
qed auto

lemma str_le_trans: "str_le a b \<Longrightarrow> str_le b c \<Longrightarrow> str_le a c"
proof (induction a b arbitrary: c rule: str_le.induct)
  case (3 x xs y ys)
  then show ?case
    by (cases c) (auto split: if_splits)
qed auto

lemma order_desc_first_max:
  assumes "order_desc_first xs = Some m"
  shows "m \<in> set xs \<and> (\<forall>x\<in>set xs. str_le x m)"
  using assms
proof (induction xs arbitrary: m)
  case Nil
  then show ?case by simp
next
  case (Cons x xs)
  show ?case
  proof (cases "order_desc_first xs")
    case None
    then have "xs = []" by (cases xs) (auto split: option.splits)
    then show ?thesis using Cons.prems by (simp add: str_le_refl)
  next
    case (Some m')
    from Cons.IH [OF Some] have in': "m' \<in> set xs" and mx: "\<forall>y\<in>set xs. str_le y m'"
      by simp_all
    show ?thesis
    proof (cases "str_le m' x")
      case True
      then have "m = x" using Cons.prems Some by simp
      moreover have "\<forall>y\<in>set xs. str_le y x"
        using mx True str_le_trans by blast
      ultimately show ?thesis by (simp add: str_le_refl)
    next
      case False
      then have "m = m'" using Cons.prems Some by simp
      moreover have "str_le x m'" using False by (rule str_le_total)
      ultimately show ?thesis using in' mx by simp
    qed
  qed
qed

lemma order_desc_first_greatest:
  assumes "g \<in> set xs" and "\<forall>x\<in>set xs. str_le x g"
  shows "order_desc_first xs = Some g"
proof (cases "order_desc_first xs")
  case None
  then have "xs = []" by (cases xs) (auto split: option.splits)
  then show ?thesis using assms(1) by simp
next
  case (Some m)
  from order_desc_first_max [OF Some] assms
  have "str_le m g" and "str_le g m" by auto
  then have "m = g" by (rule str_le_antisym)
  then show ?thesis using Some by simp
qed

lemma like_any: "like ''%'' s"
  by (induction s) auto

lemma like_skip: "like q t \<Longrightarrow> like (CHR ''%'' # q) t"
  by (cases t) auto

lemma like_char_refl: "like_char c c"
  by (simp add: like_char_def)

lemma like_prefix: "like (p @ ''%'') (p @ s)"
proof (induction p)
  case Nil
  show ?case using like_any by simp
next
  case (Cons a p)
  show ?case
  proof (cases "a = CHR ''%''")
    case True
    have "like (CHR ''%'' # p @ ''%'') (p @ s)" using Cons by (rule like_skip)
    then show ?thesis using True by simp
  next
    case False
    then show ?thesis using Cons by (simp add: like_char_refl)
  qed
qed

lemma digit_not_space: "is_digit c \<Longrightarrow> \<not> is_space c"
  by (auto simp: is_digit_def is_space_def)

lemma strip_digits:
  assumes "all_digits ds"
  shows "strip ds = ds"
proof (cases ds)
  case Nil
  then show ?thesis by (simp add: strip_def)
next
  case (Cons c r)
  have a: "dropWhile is_space ds = ds"
    using assms Cons by (simp add: all_digits_def digit_not_space)
  have "ds \<noteq> []" using Cons by simp
  then obtain b l where bl: "ds = b @ [l]" by (metis rev_exhaust)
  have "is_digit l" using assms bl by (simp add: all_digits_def)
  then have "dropWhile is_space (rev ds) = rev ds"
    unfolding bl by (simp add: digit_not_space)
  then show ?thesis using a by (simp add: strip_def)
qed

lemma int_body_digits: "ds \<noteq> [] \<Longrightarrow> all_digits ds \<Longrightarrow> int_body ds"
proof (induction ds rule: int_body.induct)
  case (3 c d r)
  then have "is_digit d" by (simp add: all_digits_def)
  then have "d \<noteq> CHR ''_''" by (auto simp: is_digit_def)
  then show ?case using 3 by (simp add: all_digits_def)
qed (simp_all add: all_digits_def)

lemma py_int_digits:
  assumes "ds \<noteq> []" and "all_digits ds"
  shows "py_int ds = Some (int (nat_of_digits ds))"
proof -
  obtain c r where ds: "ds = c # r" using assms(1) by (cases ds) auto
  have "is_digit c" using assms(2) ds by (simp add: all_digits_def)
  then have c: "c \<noteq> CHR ''-''" "c \<noteq> CHR ''+''" by (auto simp: is_digit_def)
  have "int_of_body ds = Some (int (nat_of_digits ds))"
    using int_body_digits [OF assms] filter_all_digits [OF assms(2)]
    by (simp add: int_of_body_def)
  then show ?thesis
    using strip_digits [OF assms(2)] ds c by (simp add: py_int_def)
qed

lemma take_digits: "all_digits s \<Longrightarrow> all_digits (take n s)"
  unfolding all_digits_def list_all_iff by (auto dest: in_set_takeD)

lemma py_remove_absent:
  assumes "\<not> all_digits p"
  shows "all_digits s \<Longrightarrow> py_remove p s = s"
proof (induction s)
  case Nil
  then show ?case by (simp add: py_remove.simps [of p "[]"])
next
  case (Cons c r)
  have "take (length p) (c # r) \<noteq> p"
    using take_digits [OF Cons.prems, of "length p"] assms by auto
  moreover have "all_digits r" using Cons.prems by (simp add: all_digits_def)
  ultimately show ?case
    using Cons.IH by (simp add: py_remove.simps [of p "c # r"])
qed

lemma py_remove_prefix:
  assumes "\<not> all_digits p" and "all_digits ds"
  shows "py_remove p (p @ ds) = ds"
proof -
  have "p \<noteq> []" using assms(1) by (auto simp: all_digits_def)
  then have "py_remove p (p @ ds) = py_remove p ds"
    by (simp add: py_remove.simps [of p "p @ ds"])
  then show ?thesis using py_remove_absent [OF assms] by simp
qed

lemma staff_ids: "map employee_id (users (staff ids)) = ids"
proof -
  have "map employee_id (users (staff ids)) = map snd (enumerate 1 ids)"
    by (simp add: staff_def split_def comp_def)
  then show ?thesis by simp
qed

lemma fmt_03d_1: "fmt_03d 1 = ''001''"
  by (simp add: fmt_03d_def zfill_def str_nat.simps digit_char_def numeral_2_eq_2)

lemma last_user_none:
  assumes "\<forall>x\<in>set (map employee_id (users d)). \<not> like (prefix @ ''%'') x"
  shows "generate_employee_id prefix d = prefix @ ''001''"
proof -
  have "filter (like (prefix @ ''%'')) (map employee_id (users d)) = []"
    using assms by (simp add: filter_empty_conv)
  then show ?thesis
    by (simp add: generate_employee_id_def get_next_employee_id_number_def last_user_def
        fmt_03d_1)
qed

lemma last_user_greatest:
  assumes "\<forall>x\<in>set (map employee_id (users d)).
             like (prefix @ ''%'') x \<longrightarrow> take (length prefix) x = prefix"
    and "prefix @ ds \<in> set (map employee_id (users d))"
    and "\<forall>x\<in>set (map employee_id (users d)).
             take (length prefix) x = prefix \<longrightarrow> str_le x (prefix @ ds)"
  shows "last_user d prefix = Some (prefix @ ds)"
  unfolding last_user_def
proof (rule order_desc_first_greatest)
  show "prefix @ ds \<in> set (filter (like (prefix @ ''%'')) (map employee_id (users d)))"
    using assms(2) like_prefix [of prefix ds] by simp
  show "\<forall>x\<in>set (filter (like (prefix @ ''%'')) (map employee_id (users d))).
          str_le x (prefix @ ds)"
    using assms(1,3) by auto
qed

lemmas id_eval =
  generate_employee_id_def get_next_employee_id_number_def last_user_def staff_ids
  like_char_def py_remove.simps py_int_def strip_def is_space_def int_of_body_def
  is_digit_def all_digits_def fmt_03d_def zfill_def str_nat.simps digit_char_def
  nat_of_digits_def digit_val_def numeral_2_eq_2

section \<open>Evaluating the examples\<close>

lemmas calendar_eval =
  strftime_date_def ord2ymd_def DAYS_BEFORE_MONTH_def DAYS_IN_MONTH_def fmt_02d_def zfill_def
  str_nat.simps digit_char_def Let_def
  strptime_date_def year_field_def month_field_def day_field_def all_digits_def is_digit_def
  nat_of_digits_def digit_val_def days_in_month_def is_leap_def ymd2ord_def
  days_before_year_def days_before_month_def

lemma june_dates:
  "strptime_date ''2024-06-01'' = Some 739038"
  "strptime_date ''2024-06-03'' = Some 739040"
  "strftime_date 739038 = ''2024-06-01''"
  "strftime_date 739039 = ''2024-06-02''"
  "strftime_date 739040 = ''2024-06-03''"
  "strptime_date ''2024-06-02'' = Some 739039"
  by (simp_all add: calendar_eval)

lemmas example_eval =
  ann_def bob_def fresh_store_def worked_row_def worked_store_def open_store_def holiday_store_def holiday_row_def closed_store_def
  on_june_1_def
  get_attendance_for_date_def get_user_by_id_def get_user_by_employee_id_def user_exists_def

lemmas leave_eval =
  mark_leave_def mark_leave_loop.simps upsert_attendance_def insert_attendance_def
  set_columns_def truthy_def MAXORDINAL_def june_dates str_nat.simps digit_char_def
  ann_def bob_def fresh_store_def worked_row_def worked_store_def holiday_row_def
  closed_store_def get_attendance_for_date_def get_user_by_id_def user_exists_def

section \<open>Claims\<close>

text \<open>
  C10. A call of \<^verbatim>\<open>upsert_attendance\<close> on a (user, date) that already has a row leaves
  every column unchanged whose argument is \<^verbatim>\<open>None\<close> (for \<^verbatim>\<open>login_time\<close>,
  \<^verbatim>\<open>logout_time\<close> and \<^verbatim>\<open>status\<close>: whose argument is \<^verbatim>\<open>None\<close> or empty); a recorded
  login or logout time is never set back to \<^verbatim>\<open>NULL\<close>. The one call that writes nothing
  is the one whose arguments are all empty, which fails on its own \<^verbatim>\<open>UPDATE\<close> text.
  Hence \<^verbatim>\<open>mark_leave\<close> over a range that holds a day with recorded times sets that
  day's status to the leave type and its hours to 0, and keeps both times.
\<close>

theorem upsert_attendance_keeps_columns:
  assumes "get_attendance_for_date d user_id date = Some r"
  shows "(case upsert_attendance d user_id date li lo h st nt of
           Inl e \<Rightarrow> \<not> truthy li \<and> \<not> truthy lo \<and> h = None \<and> \<not> truthy st \<and> nt = None
         | Inr d' \<Rightarrow>
             (\<exists>r'. get_attendance_for_date d' user_id date = Some r'
                \<and> (\<not> truthy li \<longrightarrow> login_time r' = login_time r)
                \<and> (\<not> truthy lo \<longrightarrow> logout_time r' = logout_time r)
                \<and> (h = None \<longrightarrow> hours_worked r' = hours_worked r)
                \<and> (\<not> truthy st \<longrightarrow> status r' = status r)
                \<and> (nt = None \<longrightarrow> attendance_notes r' = attendance_notes r)
                \<and> (login_time r \<noteq> None \<longrightarrow> login_time r' \<noteq> None)
                \<and> (logout_time r \<noteq> None \<longrightarrow> logout_time r' \<noteq> None)))
       \<and> (user_exists d user_id \<and> strptime_date start_date = Some start_dt
            \<and> strptime_date end_date = Some end_dt \<and> start_dt \<le> day \<and> day \<le> end_dt
            \<and> date = strftime_date day \<and> leave_type \<noteq> [] \<longrightarrow>
           (\<exists>r'. get_attendance_for_date
                    (fst (mark_leave d user_id start_date end_date leave_type leave_notes))
                    user_id date = Some r'
              \<and> status r' = leave_type \<and> hours_worked r' = 0
              \<and> login_time r' = login_time r \<and> logout_time r' = logout_time r))"
proof (intro conjI impI)
  show "case upsert_attendance d user_id date li lo h st nt of
           Inl e \<Rightarrow> \<not> truthy li \<and> \<not> truthy lo \<and> h = None \<and> \<not> truthy st \<and> nt = None
         | Inr d' \<Rightarrow>
             (\<exists>r'. get_attendance_for_date d' user_id date = Some r'
                \<and> (\<not> truthy li \<longrightarrow> login_time r' = login_time r)
                \<and> (\<not> truthy lo \<longrightarrow> logout_time r' = logout_time r)
                \<and> (h = None \<longrightarrow> hours_worked r' = hours_worked r)
                \<and> (\<not> truthy st \<longrightarrow> status r' = status r)
                \<and> (nt = None \<longrightarrow> attendance_notes r' = attendance_notes r)
                \<and> (login_time r \<noteq> None \<longrightarrow> login_time r' \<noteq> None)
                \<and> (logout_time r \<noteq> None \<longrightarrow> logout_time r' \<noteq> None))"
  proof (cases "upsert_attendance d user_id date li lo h st nt")
    case (Inl e)
    then show ?thesis using upsert_existing_error [OF assms Inl] by simp
  next
    case (Inr d')
    have "get_attendance_for_date d' user_id date = Some (set_columns li lo h st nt r)"
      using upsert_existing(1) [OF assms Inr] .
    then show ?thesis using Inr
      by (auto simp: set_columns_def truthy_def split: option.splits)
  qed
next
  assume a: "user_exists d user_id \<and> strptime_date start_date = Some start_dt
            \<and> strptime_date end_date = Some end_dt \<and> start_dt \<le> day \<and> day \<le> end_dt
            \<and> date = strftime_date day \<and> leave_type \<noteq> []"
  then have ue: "user_exists d user_id" and ps: "strptime_date start_date = Some start_dt"
    and pe: "strptime_date end_date = Some end_dt" and le: "start_dt \<le> day" "day \<le> end_dt"
    and dt: "date = strftime_date day" and ne: "leave_type \<noteq> []"
    by simp_all
  have row: "get_attendance_for_date d user_id (strftime_date day) = Some r"
    using assms dt by simp
  have z: "0 \<le> start_dt" using strptime_date_range [OF ps] by simp
  have mx: "day \<le> MAXORDINAL" using strptime_date_range [OF pe] le(2) by simp
  from mark_leave_loop_marks [OF ue row le z mx ne, of leave_notes 0]
  obtain r' where r': "get_attendance_for_date
        (fst (mark_leave_loop d user_id start_dt end_dt leave_type leave_notes 0)) user_id
        (strftime_date day) = Some r'"
      "login_time r' = login_time r" "logout_time r' = logout_time r"
      "status r' = leave_type" "hours_worked r' = 0"
    by blast
  have "fst (mark_leave d user_id start_date end_date leave_type leave_notes)
      = fst (mark_leave_loop d user_id start_dt end_dt leave_type leave_notes 0)"
    using ps pe le by (simp add: mark_leave_def split: prod.splits sum.splits)
  then show "\<exists>r'. get_attendance_for_date
                    (fst (mark_leave d user_id start_date end_date leave_type leave_notes))
                    user_id date = Some r'
              \<and> status r' = leave_type \<and> hours_worked r' = 0
              \<and> login_time r' = login_time r \<and> logout_time r' = logout_time r"
    using r' dt by simp
qed

text \<open>The worked day of 1 June 2024, marked as leave afterwards: the row keeps 09:00:00 and
  17:30:00.\<close>

theorem upsert_attendance_keeps_columns_witness:
  "get_attendance_for_date worked_store 1 ''2024-06-01'' = Some worked_row
   \<and> (\<exists>r'. get_attendance_for_date
              (fst (mark_leave worked_store 1 ''2024-06-01'' ''2024-06-03'' ''Leave'' ''''))
              1 ''2024-06-01'' = Some r'
         \<and> status r' = ''Leave'' \<and> hours_worked r' = 0
         \<and> login_time r' = Some ''09:00:00'' \<and> logout_time r' = Some ''17:30:00'')"
proof -
  have row: "get_attendance_for_date worked_store 1 ''2024-06-01'' = Some worked_row"
    by (simp add: example_eval)
  have ue: "user_exists worked_store 1" by (simp add: example_eval)
  have times: "login_time worked_row = Some ''09:00:00''"
    "logout_time worked_row = Some ''17:30:00''"
    by (simp_all add: worked_row_def)
  from upsert_attendance_keeps_columns [OF row, of None None None None None
      "''2024-06-01''" 739038 "''2024-06-03''" 739040 739038 "''Leave''" "''''"]
  show ?thesis using row ue june_dates times by simp
qed

text \<open>
  C1. The attendance table never holds two rows with the same (user_id, date): a store
  that has at most one row per user and date still has after manual login, manual logout,
  a scanned toggle, any run of the scan loop, forced logout, \<^verbatim>\<open>mark_leave\<close> (the
  administrator's correction), the deletion of a user, and any single
  \<^verbatim>\<open>upsert_attendance\<close>. The empty table of \<^verbatim>\<open>create_tables\<close> has the property, so
  every store the engine reaches has it.
\<close>

theorem attendance_unique_per_user_and_date:
  assumes "one_row_per_day d"
  shows "one_row_per_day (fst (handle_manual_login pbkdf2 d now emp_id password))
       \<and> one_row_per_day (fst (handle_manual_logout pbkdf2 up d now emp_id password))
       \<and> (case handle_qr_login_toggle up d now qr of
            Inl e \<Rightarrow> True | Inr (d', r) \<Rightarrow> one_row_per_day d')
       \<and> one_row_per_day (snd (fst (update_camera_feed up (panel, d) ticks)))
       \<and> one_row_per_day (fst (force_logout up d now user_id))
       \<and> one_row_per_day (fst (mark_leave d user_id start_date end_date leave_type leave_notes))
       \<and> one_row_per_day (delete_user d user_id)
       \<and> (case upsert_attendance d user_id date li lo h st nt of
            Inl e \<Rightarrow> True | Inr d' \<Rightarrow> one_row_per_day d')"
proof (intro conjI)
  show "one_row_per_day (fst (handle_manual_login pbkdf2 d now emp_id password))"
    using assms perform_login_one_row [OF assms]
    by (simp add: handle_manual_login_def split: option.splits)
  show "one_row_per_day (fst (handle_manual_logout pbkdf2 up d now emp_id password))"
    using assms perform_logout_one_row [OF assms]
    by (simp add: handle_manual_logout_def split: option.splits)
  show "case handle_qr_login_toggle up d now qr of
            Inl e \<Rightarrow> True | Inr (d', r) \<Rightarrow> one_row_per_day d'"
    using toggle_one_row [OF assms] by (auto split: sum.splits)
  show "one_row_per_day (snd (fst (update_camera_feed up (panel, d) ticks)))"
    using camera_one_row [of "(panel, d)"] assms by simp
  show "one_row_per_day (fst (force_logout up d now user_id))"
    using assms perform_logout_one_row [OF assms]
    by (simp add: force_logout_def split: option.splits)
  show "one_row_per_day (fst (mark_leave d user_id start_date end_date leave_type leave_notes))"
    using mark_leave_one_row [OF assms] .
  show "one_row_per_day (delete_user d user_id)"
    using delete_user_one_row [OF assms] .
  show "case upsert_attendance d user_id date li lo h st nt of
            Inl e \<Rightarrow> True | Inr d' \<Rightarrow> one_row_per_day d'"
    using upsert_one_row [OF assms] by (auto split: sum.splits)
qed

text \<open>
  The empty table and the worked day of 1 June 2024 have one row per user and date, and
  keep it through \<^verbatim>\<open>mark_leave\<close> and a forced logout.
\<close>

theorem attendance_unique_per_user_and_date_witness:
  "one_row_per_day fresh_store
   \<and> one_row_per_day worked_store
   \<and> one_row_per_day
       (fst (mark_leave worked_store 1 ''2024-06-01'' ''2024-06-03'' ''Leave'' ''''))
   \<and> one_row_per_day (fst (force_logout (\<lambda>s. True) worked_store (on_june_1 18 0 0) 1))"
proof -
  have f: "one_row_per_day fresh_store"
    by (simp add: one_row_per_day_def attendance_keys_def fresh_store_def)
  have w: "one_row_per_day worked_store"
    by (simp add: one_row_per_day_def attendance_keys_def worked_store_def fresh_store_def)
  from attendance_unique_per_user_and_date [OF w]
  show ?thesis using f w by simp
qed

text \<open>
  C2, as the code has it. A logout of a user whose row of today has a login time that
  parses is accepted; it keeps the login time, stores the clock reading as logout time and
  stores as hours worked \<^verbatim>\<open>round((logout - login) / 3600, 2)\<close>, with no clamp at 0.
  When the logout time is not before the login time this is
  \<^verbatim>\<open>round(max(0, logout - login) / 3600, 2)\<close> and not negative; when the clock reads
  more than 18 seconds before the stored login time the stored hours are negative.
\<close>

theorem perform_logout_hours:
  assumes "valid_datetime now" and "user_exists d user_id"
    and "get_attendance_for_date d user_id (strftime_date (dt_date now)) = Some r"
    and "login_time r = Some l" and "strptime_time l = Some login_secs"
  shows "\<exists>d' r'.
           perform_logout up d now user_id user_name act
             = (d', Success (user_name @ '' logged out at '' @ strftime_time now @ ''.''))
         \<and> get_attendance_for_date d' user_id (strftime_date (dt_date now)) = Some r'
         \<and> login_time r' = Some l
         \<and> logout_time r' = Some (strftime_time now)
         \<and> hours_worked r' = round_hours up (seconds_of_day now - login_secs)
         \<and> (login_secs \<le> seconds_of_day now \<longrightarrow>
              0 \<le> hours_worked r'
              \<and> hours_worked r' = round_hours up (max 0 (seconds_of_day now - login_secs)))
         \<and> (seconds_of_day now - login_secs < - 18 \<longrightarrow> hours_worked r' < 0)"
proof -
  let ?date = "strftime_date (dt_date now)" and ?time = "strftime_time now"
  let ?d1 = "update_user_login_status d user_id 0"
  let ?d2 = "?d1\<lparr>login_history := login_history ?d1 @ [\<lparr>history_user_id = user_id, action = act\<rparr>]\<rparr>"
  let ?hw = "round_hours up (seconds_of_day now - login_secs)"
  have lh: "log_history ?d1 user_id act = Inr ?d2"
    using assms(2) by (simp add: log_history_ok)
  have row2: "get_attendance_for_date ?d2 user_id ?date = Some r"
    using assms(3) by simp
  have ne: "l \<noteq> []"
    using assms(5) by (auto simp: strptime_time_def)
  have hw: "hours_between up (Some r) ?time = ?hw"
    using assms(4,5) ne strptime_strftime_time [OF assms(1)]
    by (simp add: hours_between_def truthy_def)
  obtain d3 where up: "upsert_attendance ?d2 user_id ?date None (Some ?time) (Some ?hw) None None
      = Inr d3"
    using row2 by (auto simp: upsert_attendance_def truthy_def)
  have row3: "get_attendance_for_date d3 user_id ?date
      = Some (set_columns None (Some ?time) (Some ?hw) None None r)"
    using upsert_existing(1) [OF row2 up] .
  have tne: "?time \<noteq> []" by (simp add: strftime_time_def)
  have res: "perform_logout up d now user_id user_name act
      = (d3, Success (user_name @ '' logged out at '' @ ?time @ ''.''))"
    using lh row2 hw up by (simp add: perform_logout_def Let_def)
  let ?r' = "set_columns None (Some ?time) (Some ?hw) None None r"
  have cols: "login_time ?r' = Some l" "logout_time ?r' = Some ?time" "hours_worked ?r' = ?hw"
    using assms(4) tne by (simp_all add: set_columns_def truthy_def)
  have pos: "login_secs \<le> seconds_of_day now \<longrightarrow>
      0 \<le> ?hw \<and> ?hw = round_hours up (max 0 (seconds_of_day now - login_secs))"
    using round_hours_nonneg [of "seconds_of_day now - login_secs" up] by (simp add: max_def)
  have neg: "seconds_of_day now - login_secs < - 18 \<longrightarrow> ?hw < 0"
    using round_hours_neg [of "seconds_of_day now - login_secs" up] by simp
  show ?thesis
    using res row3 cols pos neg by (intro exI [of _ d3] exI [of _ ?r']) simp
qed

text \<open>
  The worked day of 1 June 2024, logged out again at 18:00:00: nine hours after 09:00:00.
\<close>

theorem perform_logout_hours_witness:
  "\<exists>d' r'.
     perform_logout (\<lambda>s. True) worked_store (on_june_1 18 0 0) 1 ''Ann'' ''logout''
       = (d', Success ''Ann logged out at 18:00:00.'')
     \<and> get_attendance_for_date d' 1 ''2024-06-01'' = Some r'
     \<and> login_time r' = Some ''09:00:00'' \<and> logout_time r' = Some ''18:00:00''
     \<and> hours_worked r' = 900"
proof -
  have v: "valid_datetime (on_june_1 18 0 0)"
    by (simp add: valid_datetime_def on_june_1_def MAXORDINAL_def)
  have ue: "user_exists worked_store 1" by (simp add: example_eval)
  have dt: "strftime_date (dt_date (on_june_1 18 0 0)) = ''2024-06-01''"
    by (simp add: on_june_1_def june_dates)
  have row: "get_attendance_for_date worked_store 1 (strftime_date (dt_date (on_june_1 18 0 0)))
      = Some worked_row"
    unfolding dt by (simp add: example_eval)
  have l: "login_time worked_row = Some ''09:00:00''" by (simp add: worked_row_def)
  have p: "strptime_time ''09:00:00'' = Some 32400" by (simp add: time_eval)
  have tm: "strftime_time (on_june_1 18 0 0) = ''18:00:00''"
    by (simp add: on_june_1_def time_eval)
  have sec: "seconds_of_day (on_june_1 18 0 0) = 64800"
    by (simp add: seconds_of_day_def on_june_1_def)
  have rh: "round_hours (\<lambda>s. True) (64800 - 32400) = 900"
    by (simp add: round_hours_def)
  from perform_logout_hours [OF v ue row l p, of "\<lambda>s. True" "''Ann''" "''logout''"]
  show ?thesis unfolding dt tm sec rh by auto
qed

text \<open>
  C2 as stated fails: after a login at 17:30:00, a logout on the same date with the clock at
  09:00:00 (a clock set back) is accepted and stores -8.50 hours and a logout time before
  the login time, where the claim promises 0 hours and ordered times.
\<close>

theorem perform_logout_hours_counterexample:
  "perform_logout (\<lambda>s. True)
     (fst (perform_login fresh_store (on_june_1 17 30 0) 1 ''Ann''))
     (on_june_1 9 0 0) 1 ''Ann'' ''logout''
   = (\<lparr>users = [ann, bob],
        login_history = [\<lparr>history_user_id = 1, action = ''login''\<rparr>,
                         \<lparr>history_user_id = 1, action = ''logout''\<rparr>],
        attendance = [\<lparr>attendance_id = 1, attendance_user_id = 1,
                        attendance_date = ''2024-06-01'', login_time = Some ''17:30:00'',
                        logout_time = Some ''09:00:00'', hours_worked = - 850,
                        status = ''Present'', attendance_notes = None\<rparr>],
        attendance_seq = 1, events = []\<rparr>,
      Success ''Ann logged out at 09:00:00.'')"
  by (simp add: engine_eval example_eval time_eval june_dates)

text \<open>
  C6. For a user who is found: when the user is already logged out, \<^verbatim>\<open>force_logout\<close>
  returns the informational result "User is already logged out." and the store it returns
  is the store it was given (no history row, no change of the attendance table); when the
  user is logged in, it returns the same reply as a logout of that user and leaves the same
  users, attendance table and calendar, and the history is the old one with one more row,
  whose action is \<^verbatim>\<open>force_logout\<close> where the logout writes \<^verbatim>\<open>logout\<close>.
\<close>

theorem force_logout_cases:
  assumes "get_user_by_id d user_id = Some u"
  shows "(is_logged_in u = 0 \<longrightarrow>
            force_logout up d now user_id = (d, Info ''User is already logged out.''))
       \<and> (is_logged_in u \<noteq> 0 \<longrightarrow>
            (case (force_logout up d now user_id,
                   perform_logout up d now user_id (name u) ''logout'') of
               ((df, rf), (dl, rl)) \<Rightarrow>
                 rf = rl \<and> users df = users dl \<and> attendance df = attendance dl
                 \<and> attendance_seq df = attendance_seq dl \<and> events df = events dl
                 \<and> login_history df = login_history d
                      @ [\<lparr>history_user_id = user_id, action = ''force_logout''\<rparr>]
                 \<and> login_history dl = login_history d
                      @ [\<lparr>history_user_id = user_id, action = ''logout''\<rparr>]))"
proof (intro conjI impI)
  assume "is_logged_in u = 0"
  then show "force_logout up d now user_id = (d, Info ''User is already logged out.'')"
    using assms by (simp add: force_logout_def)
next
  assume li: "is_logged_in u \<noteq> 0"
  have ue: "user_exists d user_id" using assms by (simp add: user_exists_def)
  have f: "force_logout up d now user_id
      = perform_logout up d now user_id (name u) ''force_logout''"
    using assms li by (simp add: force_logout_def)
  show "case (force_logout up d now user_id,
                   perform_logout up d now user_id (name u) ''logout'') of
               ((df, rf), (dl, rl)) \<Rightarrow>
                 rf = rl \<and> users df = users dl \<and> attendance df = attendance dl
                 \<and> attendance_seq df = attendance_seq dl \<and> events df = events dl
                 \<and> login_history df = login_history d
                      @ [\<lparr>history_user_id = user_id, action = ''force_logout''\<rparr>]
                 \<and> login_history dl = login_history d
                      @ [\<lparr>history_user_id = user_id, action = ''logout''\<rparr>]"
    unfolding f perform_logout_unfold [OF ue] Let_def
    by (simp split: sum.splits)
qed

text \<open>
  A forced logout after the worked day changes nothing; a forced logout in the middle of
  the day is recorded after the login with its own action.
\<close>

theorem force_logout_cases_witness:
  "force_logout (\<lambda>s. True) worked_store (on_june_1 18 0 0) 1
     = (worked_store, Info ''User is already logged out.'')
   \<and> login_history (fst (force_logout (\<lambda>s. True) open_store (on_june_1 17 30 0) 1))
     = [\<lparr>history_user_id = 1, action = ''login''\<rparr>,
        \<lparr>history_user_id = 1, action = ''force_logout''\<rparr>]"
proof -
  have a: "get_user_by_id worked_store 1 = Some ann" by (simp add: example_eval)
  have b: "get_user_by_id open_store 1 = Some (ann\<lparr>is_logged_in := 1\<rparr>)"
    by (simp add: example_eval)
  have h: "login_history open_store = [\<lparr>history_user_id = 1, action = ''login''\<rparr>]"
    by (simp add: open_store_def)
  from force_logout_cases [OF a, of "\<lambda>s. True" "on_june_1 18 0 0"]
    force_logout_cases [OF b, of "\<lambda>s. True" "on_june_1 17 30 0"]
  show ?thesis using h by (auto simp: ann_def split: prod.splits)
qed

text \<open>
  C9, as the code has it. A manual login or logout with an employee identifier that no user
  has returns "Error: Employee ID not found."; with an identifier some user has and a
  password that does not verify it returns "Error: Invalid password.". Neither writes
  anything, and the two results are different texts: the result tells which half of the
  credential failed.
\<close>

theorem handle_manual_login_failures:
  assumes "get_user_by_employee_id d unknown_id = None"
    and "get_user_by_employee_id d known_id = Some u"
    and "\<not> verify_password pbkdf2 (hashed_password u) (salt u) wrong_password"
  shows "handle_manual_login pbkdf2 d now unknown_id password
           = (d, Error ''Employee ID not found.'')
       \<and> handle_manual_login pbkdf2 d now known_id wrong_password
           = (d, Error ''Invalid password.'')
       \<and> handle_manual_logout pbkdf2 up d now unknown_id password
           = (d, Error ''Employee ID not found.'')
       \<and> handle_manual_logout pbkdf2 up d now known_id wrong_password
           = (d, Error ''Invalid password.'')
       \<and> snd (handle_manual_login pbkdf2 d now unknown_id password)
           \<noteq> snd (handle_manual_login pbkdf2 d now known_id wrong_password)"
  using assms by (simp add: handle_manual_login_def handle_manual_logout_def)

text \<open>
  Two failed attempts on the store of two workers: an identifier nobody has, and the first
  worker's identifier with a guessed password.
\<close>

theorem handle_manual_login_failures_witness:
  "handle_manual_login (\<lambda>p s. p @ s) fresh_store (on_june_1 9 0 0) ''ALLY404'' ''guess''
     = (fresh_store, Error ''Employee ID not found.'')
   \<and> handle_manual_logout (\<lambda>p s. p @ s) (\<lambda>s. True) fresh_store (on_june_1 9 0 0)
        ''ALLY001'' ''guess''
     = (fresh_store, Error ''Invalid password.'')"
proof -
  have a: "get_user_by_employee_id fresh_store ''ALLY404'' = None"
    by (simp add: example_eval)
  have b: "get_user_by_employee_id fresh_store ''ALLY001'' = Some ann"
    by (simp add: example_eval)
  have c: "\<not> verify_password (\<lambda>p s. p @ s) (hashed_password ann) (salt ann) ''guess''"
    by (simp add: verify_password_def ann_def)
  from handle_manual_login_failures [OF a b c, where now = "on_june_1 9 0 0"
      and password = "''guess''" and up = "\<lambda>s. True"]
  show ?thesis by simp
qed

text \<open>
  C9 as stated fails: the two failed attempts on the same store return different error
  texts, one for the unknown identifier and one for the wrong password.
\<close>

theorem handle_manual_login_failures_counterexample:
  "snd (handle_manual_login (\<lambda>p s. p @ s) fresh_store (on_june_1 9 0 0) ''ALLY404'' ''guess'')
     = Error ''Employee ID not found.''
   \<and> snd (handle_manual_login (\<lambda>p s. p @ s) fresh_store (on_june_1 9 0 0) ''ALLY001'' ''guess'')
     = Error ''Invalid password.''
   \<and> snd (handle_manual_login (\<lambda>p s. p @ s) fresh_store (on_june_1 9 0 0) ''ALLY404'' ''guess'')
     \<noteq> snd (handle_manual_login (\<lambda>p s. p @ s) fresh_store (on_june_1 9 0 0) ''ALLY001''
            ''guess'')"
  by (simp add: handle_manual_login_def verify_password_def example_eval)

text \<open>
  C5, as the code has it. A login of an existing user succeeds, appends exactly one
  \<^verbatim>\<open>login\<close> row to the history, leaves the calendar as it is, and leaves a row for the user
  and today's date whose status is \<^verbatim>\<open>Present\<close> and whose login time is the clock reading;
  a row created by the login has no logout time, no notes and 0 hours, and a row that was
  there keeps every other column. The calendar is not read: the status does not depend on
  today's events.
\<close>

theorem perform_login_marks_present:
  assumes "user_exists d user_id"
  shows "case perform_login d now user_id user_name of (d', r) \<Rightarrow>
           r = Success (user_name @ '' logged in at '' @ strftime_time now @ ''.'')
         \<and> login_history d'
             = login_history d @ [\<lparr>history_user_id = user_id, action = ''login''\<rparr>]
         \<and> events d' = events d
         \<and> (\<exists>row. get_attendance_for_date d' user_id (strftime_date (dt_date now)) = Some row
               \<and> status row = ''Present''
               \<and> login_time row = Some (strftime_time now)
               \<and> (case get_attendance_for_date d user_id (strftime_date (dt_date now)) of
                    None \<Rightarrow> logout_time row = None \<and> hours_worked row = 0
                              \<and> attendance_notes row = None
                  | Some old \<Rightarrow> row = old\<lparr>login_time := Some (strftime_time now),
                                           status := ''Present''\<rparr>))"
proof -
  define tm where "tm = strftime_time now"
  define dt where "dt = strftime_date (dt_date now)"
  define d1 where "d1 = update_user_login_status d user_id 1"
  define d2 where "d2 = d1\<lparr>login_history :=
      login_history d1 @ [\<lparr>history_user_id = user_id, action = ''login''\<rparr>]\<rparr>"
  have tr: "truthy (Some tm)" unfolding tm_def by (rule strftime_time_truthy)
  have ue1: "user_exists d1 user_id" using assms by (simp add: d1_def)
  have lh: "log_history d1 user_id ''login'' = Inr d2"
    unfolding d2_def by (rule log_history_ok [OF ue1])
  have ue2: "user_exists d2 user_id"
    using ue1 by (simp add: d2_def user_exists_def get_user_by_id_def)
  obtain d3 where up: "upsert_attendance d2 user_id dt (Some tm) None None (Some ''Present'') None
      = Inr d3"
    using upsert_login_ok [OF ue2 tr] by blast
  have pl: "perform_login d now user_id user_name
      = (d3, Success (user_name @ '' logged in at '' @ tm @ ''.''))"
    using lh up by (simp add: perform_login_def Let_def tm_def dt_def d1_def)
  have h1: "login_history d1 = login_history d"
    by (simp add: d1_def update_user_login_status_def)
  have h3: "login_history d3
      = login_history d @ [\<lparr>history_user_id = user_id, action = ''login''\<rparr>]"
    using upsert_history [OF up] h1 by (simp add: d2_def)
  have e3: "events d3 = events d"
    using up
    by (auto simp: upsert_attendance_def insert_attendance_def d2_def d1_def
        update_user_login_status_def split: if_splits option.splits)
  have g2: "get_attendance_for_date d2 user_id dt = get_attendance_for_date d user_id dt"
    by (simp add: d2_def d1_def)
  have row: "\<exists>row. get_attendance_for_date d3 user_id dt = Some row
               \<and> status row = ''Present''
               \<and> login_time row = Some tm
               \<and> (case get_attendance_for_date d user_id dt of
                    None \<Rightarrow> logout_time row = None \<and> hours_worked row = 0
                              \<and> attendance_notes row = None
                  | Some old \<Rightarrow> row = old\<lparr>login_time := Some tm, status := ''Present''\<rparr>)"
  proof (cases "get_attendance_for_date d user_id dt")
    case None
    then have "get_attendance_for_date d2 user_id dt = None" using g2 by simp
    from upsert_new [OF this up] None show ?thesis by auto
  next
    case (Some old)
    then have "get_attendance_for_date d2 user_id dt = Some old" using g2 by simp
    from upsert_existing(1) [OF this up] Some tr show ?thesis
      by (simp add: set_columns_def truthy_def)
  qed
  show ?thesis
    using pl h3 e3 row unfolding tm_def dt_def by simp
qed

text \<open>
  The first worker's login at 09:00:00 on 1 June 2024 into the store without rows.
\<close>

theorem perform_login_marks_present_witness:
  "user_exists fresh_store 1
   \<and> (\<exists>row. get_attendance_for_date
               (fst (perform_login fresh_store (on_june_1 9 0 0) 1 ''Ann'')) 1 ''2024-06-01''
             = Some row
          \<and> status row = ''Present'' \<and> login_time row = Some ''09:00:00''
          \<and> logout_time row = None \<and> hours_worked row = 0)
   \<and> login_history (fst (perform_login fresh_store (on_june_1 9 0 0) 1 ''Ann''))
       = [\<lparr>history_user_id = 1, action = ''login''\<rparr>]"
proof -
  have ue: "user_exists fresh_store 1" by (simp add: example_eval)
  have tm: "strftime_time (on_june_1 9 0 0) = ''09:00:00''"
    by (simp add: time_eval on_june_1_def)
  have dt: "strftime_date (dt_date (on_june_1 9 0 0)) = ''2024-06-01''"
    by (simp add: on_june_1_def june_dates)
  have old: "get_attendance_for_date fresh_store 1 ''2024-06-01'' = None"
    by (simp add: example_eval)
  have hs: "login_history fresh_store = []" by (simp add: fresh_store_def)
  from perform_login_marks_present [OF ue, where now = "on_june_1 9 0 0"
      and user_name = "''Ann''"]
  show ?thesis
    unfolding tm dt old hs using ue by (auto split: prod.splits)
qed

text \<open>
  C5 as stated fails: with 1 June 2024 entered in the calendar as a \<^verbatim>\<open>Holiday\<close>, a login
  on that day is accepted and the row it creates has the status \<^verbatim>\<open>Present\<close>, where the
  claim promises \<^verbatim>\<open>Holiday\<close>.
\<close>

theorem perform_login_marks_present_counterexample:
  "map category (get_events_for_date holiday_store ''2024-06-01'') = [''Holiday'']
   \<and> strftime_date (dt_date (on_june_1 9 0 0)) = ''2024-06-01''
   \<and> perform_login holiday_store (on_june_1 9 0 0) 1 ''Ann''
     = (holiday_store\<lparr>users := [ann\<lparr>is_logged_in := 1\<rparr>, bob],
          login_history := [\<lparr>history_user_id = 1, action = ''login''\<rparr>],
          attendance := [\<lparr>attendance_id = 1, attendance_user_id = 1,
             attendance_date = ''2024-06-01'',
             login_time = Some ''09:00:00'', logout_time = None, hours_worked = 0,
             status = ''Present'', attendance_notes = None\<rparr>], attendance_seq := 1\<rparr>,
        Success ''Ann logged in at 09:00:00.'')"
proof -
  have tm: "strftime_time (on_june_1 9 0 0) = ''09:00:00''"
    by (simp add: time_eval on_june_1_def)
  have dt: "strftime_date (dt_date (on_june_1 9 0 0)) = ''2024-06-01''"
    by (simp add: on_june_1_def june_dates)
  show ?thesis
    by (simp add: perform_login_def tm dt Let_def update_user_login_status_def log_history_def
        upsert_attendance_def insert_attendance_def get_events_for_date_def
        ann_def bob_def fresh_store_def holiday_store_def get_attendance_for_date_def
        get_user_by_id_def user_exists_def)
qed

text \<open>
  C3, as the code has it. A turn of the running scan loop that reads a frame showing a code
  leaves the frame unscanned, and the panel and the store as they are, when the time since
  the last decoded code is at most the cooldown, whichever badge the frame shows; when the
  time is longer, the code is passed to \<^verbatim>\<open>handle_qr_login_toggle\<close>, and the time of the
  turn becomes the time of the last decoded code (also when the toggle refuses the code or
  raises). In particular, with the cooldown of 3 seconds, scans of the badge of a
  logged-out user at T, T + 1 and T + 4 seconds on one calendar day (T later than 3, the
  panel fresh) give a login, an unscanned frame and a logout.
\<close>

theorem scan_cooldown_rule:
  "(camera_running p \<and> ret tk \<and> scan_qr_from_frame tk = Some qr \<longrightarrow>
      (current_time tk - last_scan_time p \<le> scan_cooldown p \<longrightarrow>
         update_camera_feed_turn up (p, d) tk = ((p, d), Not_scanned))
    \<and> (current_time tk - last_scan_time p > scan_cooldown p \<longrightarrow>
         (case handle_qr_login_toggle up d (wall_clock tk) qr of
            Inl err \<Rightarrow> update_camera_feed_turn up (p, d) tk
                = ((p\<lparr>last_scan_time := current_time tk, camera_running := False\<rparr>, d),
                   Stopped err)
          | Inr (d', r) \<Rightarrow> update_camera_feed_turn up (p, d) tk
                = ((p\<lparr>last_scan_time := current_time tk\<rparr>, d'), Toggled r))))
   \<and> (3 < T \<and> get_user_by_employee_id d e = Some u \<and> is_logged_in u = 0 \<and> e \<noteq> []
        \<and> dt_date c3 = dt_date c1 \<longrightarrow>
      snd (update_camera_feed up (started_panel, d)
           [badge_frame T e c1, badge_frame (T + 1) e c2, badge_frame (T + 4) e c3])
         = [Toggled (Success (name u @ '' logged in at '' @ strftime_time c1 @ ''.'')),
            Not_scanned,
            Toggled (Success (name u @ '' logged out at '' @ strftime_time c3 @ ''.''))])"
  using turn_rule [of p tk qr up d] three_scans [of T d e u c3 c1 up c2]
  unfolding badge_frame_def by blast

text \<open>
  The first worker's badge held to the camera at 100, 101 and 104 seconds, and the second
  worker's badge 3 seconds after a code was decoded.
\<close>

theorem scan_cooldown_rule_witness:
  "snd (update_camera_feed (\<lambda>s. True) (started_panel, fresh_store)
          [badge_frame 100 ''ALLY001'' (on_june_1 9 0 0),
           badge_frame 101 ''ALLY001'' (on_june_1 9 0 1),
           badge_frame 104 ''ALLY001'' (on_june_1 9 0 4)])
     = [Toggled (Success ''Ann logged in at 09:00:00.''), Not_scanned,
        Toggled (Success ''Ann logged out at 09:00:04.'')]
   \<and> update_camera_feed_turn (\<lambda>s. True)
         (started_panel\<lparr>last_scan_time := 100\<rparr>, fresh_store)
         (badge_frame 103 ''ALLY002'' (on_june_1 9 0 3))
     = ((started_panel\<lparr>last_scan_time := 100\<rparr>, fresh_store), Not_scanned)"
proof -
  have u: "get_user_by_employee_id fresh_store ''ALLY001'' = Some ann"
    by (simp add: example_eval)
  have o: "is_logged_in ann = 0" "name ann = ''Ann''" by (simp_all add: ann_def)
  have tm: "strftime_time (on_june_1 9 0 0) = ''09:00:00''"
    "strftime_time (on_june_1 9 0 4) = ''09:00:04''"
    by (simp_all add: time_eval on_june_1_def)
  have day: "dt_date (on_june_1 9 0 4) = dt_date (on_june_1 9 0 0)"
    by (simp add: on_june_1_def)
  have p: "camera_running (started_panel\<lparr>last_scan_time := 100\<rparr>)"
    "last_scan_time (started_panel\<lparr>last_scan_time := 100\<rparr>) = 100"
    "scan_cooldown (started_panel\<lparr>last_scan_time := 100\<rparr>) = 3"
    by (simp_all add: started_panel_def)
  have f: "ret (badge_frame 103 ''ALLY002'' (on_june_1 9 0 3))"
    "current_time (badge_frame 103 ''ALLY002'' (on_june_1 9 0 3)) = 103"
    "scan_qr_from_frame (badge_frame 103 ''ALLY002'' (on_june_1 9 0 3))
       = Some (Json_object (Some ''ALLY002''))"
    by (simp_all add: badge_frame_def)
  from scan_cooldown_rule [where T = 100 and d = fresh_store and e = "''ALLY001''"
      and u = ann and ?c1.0 = "on_june_1 9 0 0" and ?c3.0 = "on_june_1 9 0 4"
      and ?c2.0 = "on_june_1 9 0 1" and up = "\<lambda>s. True"
      and p = "started_panel\<lparr>last_scan_time := 100\<rparr>"
      and tk = "badge_frame 103 ''ALLY002'' (on_june_1 9 0 3)"
      and qr = "Json_object (Some ''ALLY002'')"]
  show ?thesis
    using u o tm day p f by simp
qed

text \<open>
  C3 as stated fails twice: the badge of another worker shown one second after the first
  worker's badge is not scanned (the claim has it toggled, its identifier being new), and
  the same badge shown exactly 3 seconds later is not scanned either (the claim discards
  only below the cooldown).
\<close>

theorem scan_cooldown_rule_counterexample:
  "snd (update_camera_feed (\<lambda>s. True) (started_panel, fresh_store)
          [badge_frame 100 ''ALLY001'' (on_june_1 9 0 0),
           badge_frame 101 ''ALLY002'' (on_june_1 9 0 1)])
     = [Toggled (Success ''Ann logged in at 09:00:00.''), Not_scanned]
   \<and> snd (update_camera_feed (\<lambda>s. True) (started_panel, fresh_store)
          [badge_frame 100 ''ALLY001'' (on_june_1 9 0 0),
           badge_frame 103 ''ALLY001'' (on_june_1 9 0 3)])
     = [Toggled (Success ''Ann logged in at 09:00:00.''), Not_scanned]"
proof -
  have u: "get_user_by_employee_id fresh_store ''ALLY001'' = Some ann"
    by (simp add: example_eval)
  have o: "is_logged_in ann = 0" "name ann = ''Ann''" "users_id ann = 1"
    by (simp_all add: ann_def)
  have tm: "strftime_time (on_june_1 9 0 0) = ''09:00:00''"
    by (simp add: time_eval on_june_1_def)
  have ue: "user_exists fresh_store 1" by (simp add: example_eval)
  obtain d3 where "perform_login fresh_store (on_june_1 9 0 0) 1 ''Ann''
      = (d3, Success ''Ann logged in at 09:00:00.'')"
    using perform_login_result [OF ue, of "on_june_1 9 0 0" "''Ann''"] tm by auto
  then have "handle_qr_login_toggle (\<lambda>s. True) fresh_store (on_june_1 9 0 0)
      (Json_object (Some ''ALLY001'')) = Inr (d3, Success ''Ann logged in at 09:00:00.'')"
    using u o by (simp add: handle_qr_login_toggle_def truthy_def)
  then show ?thesis
    by (simp add: update_camera_feed_turn_def started_panel_def badge_frame_def Let_def)
qed

text \<open>
  C4, as the code has it. When both dates parse, the start is not after the end, the user
  exists and the leave type is not empty, then after \<^verbatim>\<open>mark_leave\<close> every date of the
  range, both ends included, has a row for the user with the given status, 0 hours and
  the given notes. No date is excepted: a row that carried the status \<^verbatim>\<open>Holiday\<close> is
  marked like any other. A row that the call created has no login and no logout time; a
  row that was there keeps the times it had.
\<close>

theorem mark_leave_range:
  assumes "strptime_date start_date = Some start_dt"
    and "strptime_date end_date = Some end_dt"
    and "start_dt \<le> end_dt"
    and "user_exists d user_id" and "leave_type \<noteq> []"
    and "start_dt \<le> day" and "day \<le> end_dt"
  shows "\<exists>r'. get_attendance_for_date
                (fst (mark_leave d user_id start_date end_date leave_type nt)) user_id
                (strftime_date day) = Some r'
           \<and> status r' = leave_type \<and> hours_worked r' = 0 \<and> attendance_notes r' = Some nt
           \<and> (case get_attendance_for_date d user_id (strftime_date day) of
                None \<Rightarrow> login_time r' = None \<and> logout_time r' = None
              | Some r \<Rightarrow> login_time r' = login_time r \<and> logout_time r' = logout_time r)"
proof -
  let ?loop = "mark_leave_loop d user_id start_dt end_dt leave_type nt 0"
  have ml: "fst (mark_leave d user_id start_date end_date leave_type nt) = fst ?loop"
    using assms(1,2,3)
    by (simp add: mark_leave_def split: prod.splits sum.splits)
  have s0: "0 \<le> start_dt" using strptime_date_range [OF assms(1)] by simp
  have dmax: "day \<le> MAXORDINAL" using strptime_date_range [OF assms(2)] assms(7) by simp
  from mark_leave_loop_sets [OF assms(4,6,7) s0 dmax assms(5), of nt 0]
  obtain r' where r: "get_attendance_for_date (fst ?loop) user_id (strftime_date day) = Some r'"
    and q: "status r' = leave_type" "hours_worked r' = 0" "attendance_notes r' = Some nt"
    by blast
  from mark_leave_loop_times [of d user_id start_dt end_dt leave_type nt 0 user_id
      "strftime_date day"] r
  have "case get_attendance_for_date d user_id (strftime_date day) of
                None \<Rightarrow> login_time r' = None \<and> logout_time r' = None
              | Some r \<Rightarrow> login_time r' = login_time r \<and> logout_time r' = logout_time r"
    by (simp split: option.splits)
  then show ?thesis using r q ml by simp
qed

text \<open>
  Leave from 1 to 3 June 2024 on the store without rows: three rows are created, one per
  date, and the call reports three days.
\<close>

theorem mark_leave_range_witness:
  "(\<exists>r'. get_attendance_for_date
            (fst (mark_leave fresh_store 1 ''2024-06-01'' ''2024-06-03'' ''Leave'' '''')) 1
            ''2024-06-02'' = Some r'
         \<and> status r' = ''Leave'' \<and> hours_worked r' = 0 \<and> attendance_notes r' = Some ''''
         \<and> login_time r' = None \<and> logout_time r' = None)
   \<and> mark_leave fresh_store 1 ''2024-06-01'' ''2024-06-03'' ''Leave'' ''''
     = (fresh_store\<lparr>attendance :=
          [\<lparr>attendance_id = 1, attendance_user_id = 1, attendance_date = ''2024-06-01'',
            login_time = None, logout_time = None, hours_worked = 0, status = ''Leave'',
            attendance_notes = Some ''''\<rparr>,
           \<lparr>attendance_id = 2, attendance_user_id = 1, attendance_date = ''2024-06-02'',
            login_time = None, logout_time = None, hours_worked = 0, status = ''Leave'',
            attendance_notes = Some ''''\<rparr>,
           \<lparr>attendance_id = 3, attendance_user_id = 1, attendance_date = ''2024-06-03'',
            login_time = None, logout_time = None, hours_worked = 0, status = ''Leave'',
            attendance_notes = Some ''''\<rparr>],
          attendance_seq := 3\<rparr>,
        Success ''Marked Leave for 3 days.'')"
proof -
  have ue: "user_exists fresh_store 1" by (simp add: example_eval)
  have old: "get_attendance_for_date fresh_store 1 ''2024-06-02'' = None"
    by (simp add: example_eval)
  have ev: "mark_leave fresh_store 1 ''2024-06-01'' ''2024-06-03'' ''Leave'' ''''
     = (fresh_store\<lparr>attendance :=
          [\<lparr>attendance_id = 1, attendance_user_id = 1, attendance_date = ''2024-06-01'',
            login_time = None, logout_time = None, hours_worked = 0, status = ''Leave'',
            attendance_notes = Some ''''\<rparr>,
           \<lparr>attendance_id = 2, attendance_user_id = 1, attendance_date = ''2024-06-02'',
            login_time = None, logout_time = None, hours_worked = 0, status = ''Leave'',
            attendance_notes = Some ''''\<rparr>,
           \<lparr>attendance_id = 3, attendance_user_id = 1, attendance_date = ''2024-06-03'',
            login_time = None, logout_time = None, hours_worked = 0, status = ''Leave'',
            attendance_notes = Some ''''\<rparr>],
          attendance_seq := 3\<rparr>,
        Success ''Marked Leave for 3 days.'')"
    by (simp add: leave_eval)
  from mark_leave_range [OF june_dates(1) june_dates(2) _ ue, where day = 739039
      and leave_type = "''Leave''" and nt = "''''"]
  have "\<exists>r'. get_attendance_for_date
            (fst (mark_leave fresh_store 1 ''2024-06-01'' ''2024-06-03'' ''Leave'' '''')) 1
            ''2024-06-02'' = Some r'
         \<and> status r' = ''Leave'' \<and> hours_worked r' = 0 \<and> attendance_notes r' = Some ''''
         \<and> login_time r' = None \<and> logout_time r' = None"
    unfolding june_dates old by simp
  then show ?thesis using ev by blast
qed

text \<open>
  C4 as stated fails: 2 June 2024 is first marked \<^verbatim>\<open>Holiday\<close>; leave over 1 to 3 June then
  creates two rows and overwrites the third, whose status becomes \<^verbatim>\<open>Leave\<close> and whose notes
  are replaced. And the times are not zeroed: leave marked on the worked day keeps its
  login and logout time.
\<close>

theorem mark_leave_range_counterexample:
  "fst (mark_leave fresh_store 1 ''2024-06-02'' ''2024-06-02'' ''Holiday'' ''Founders Day'')
     = closed_store
   \<and> attendance closed_store = [holiday_row] \<and> status holiday_row = ''Holiday''
   \<and> attendance_date holiday_row = ''2024-06-02''
   \<and> attendance (fst (mark_leave closed_store 1 ''2024-06-01'' ''2024-06-03'' ''Leave'' ''''))
     = [\<lparr>attendance_id = 1, attendance_user_id = 1, attendance_date = ''2024-06-02'',
         login_time = None, logout_time = None, hours_worked = 0, status = ''Leave'',
         attendance_notes = Some ''''\<rparr>,
        \<lparr>attendance_id = 2, attendance_user_id = 1, attendance_date = ''2024-06-01'',
         login_time = None, logout_time = None, hours_worked = 0, status = ''Leave'',
         attendance_notes = Some ''''\<rparr>,
        \<lparr>attendance_id = 3, attendance_user_id = 1, attendance_date = ''2024-06-03'',
         login_time = None, logout_time = None, hours_worked = 0, status = ''Leave'',
         attendance_notes = Some ''''\<rparr>]
   \<and> attendance (fst (mark_leave worked_store 1 ''2024-06-01'' ''2024-06-01'' ''Leave'' ''''))
     = [\<lparr>attendance_id = 1, attendance_user_id = 1, attendance_date = ''2024-06-01'',
         login_time = Some ''09:00:00'', logout_time = Some ''17:30:00'', hours_worked = 0,
         status = ''Leave'', attendance_notes = Some ''''\<rparr>]"
  by (simp add: leave_eval)

text \<open>
  C7, as the code has it. Let every identifier that the query selects begin with the prefix
  (the query's \<^verbatim>\<open>LIKE\<close> ignores the case of ASCII letters and reads \<open>%\<close> and \<open>_\<close> in the
  prefix as wildcards). If the prefix is not made of digits only and the greatest
  identifier with the prefix, in the order of the texts, is the prefix followed by digits,
  the next identifier is the prefix followed by that number plus one, padded with zeros to
  three digits. If no identifier has the prefix, the next identifier is the prefix
  followed by 001.
\<close>

theorem generate_employee_id_next:
  assumes "\<forall>x\<in>set (map employee_id (users d)).
             like (prefix @ ''%'') x \<longrightarrow> take (length prefix) x = prefix"
  shows "(prefix @ ds \<in> set (map employee_id (users d))
          \<and> (\<forall>x\<in>set (map employee_id (users d)).
                take (length prefix) x = prefix \<longrightarrow> str_le x (prefix @ ds))
          \<and> ds \<noteq> [] \<and> all_digits ds \<and> \<not> all_digits prefix
         \<longrightarrow> generate_employee_id prefix d = prefix @ fmt_03d (int (nat_of_digits ds) + 1))
       \<and> ((\<forall>x\<in>set (map employee_id (users d)). take (length prefix) x \<noteq> prefix)
         \<longrightarrow> generate_employee_id prefix d = prefix @ ''001'')"
proof (intro conjI impI)
  assume h: "prefix @ ds \<in> set (map employee_id (users d))
          \<and> (\<forall>x\<in>set (map employee_id (users d)).
                take (length prefix) x = prefix \<longrightarrow> str_le x (prefix @ ds))
          \<and> ds \<noteq> [] \<and> all_digits ds \<and> \<not> all_digits prefix"
  then have lu: "last_user d prefix = Some (prefix @ ds)"
    using last_user_greatest [OF assms] by blast
  have "py_remove prefix (prefix @ ds) = ds"
    using h py_remove_prefix by blast
  moreover have "py_int ds = Some (int (nat_of_digits ds))"
    using h py_int_digits by blast
  ultimately show "generate_employee_id prefix d
      = prefix @ fmt_03d (int (nat_of_digits ds) + 1)"
    using lu by (simp add: generate_employee_id_def get_next_employee_id_number_def)
next
  assume "\<forall>x\<in>set (map employee_id (users d)). take (length prefix) x \<noteq> prefix"
  then have "\<forall>x\<in>set (map employee_id (users d)). \<not> like (prefix @ ''%'') x"
    using assms by blast
  then show "generate_employee_id prefix d = prefix @ ''001''"
    by (rule last_user_none)
qed

text \<open>
  With ALLY009 the greatest identifier the next one is ALLY010; with no users it is
  ALLY001.
\<close>

theorem generate_employee_id_next_witness:
  "generate_employee_id ''ALLY'' (staff [''ALLY001'', ''ALLY009'']) = ''ALLY010''
   \<and> generate_employee_id ''ALLY'' (staff []) = ''ALLY001''"
proof -
  have a: "\<forall>x\<in>set (map employee_id (users (staff [''ALLY001'', ''ALLY009'']))).
             like (''ALLY'' @ ''%'') x \<longrightarrow> take (length ''ALLY'') x = ''ALLY''"
    by (simp add: staff_ids)
  have b: "\<forall>x\<in>set (map employee_id (users (staff []))).
             like (''ALLY'' @ ''%'') x \<longrightarrow> take (length ''ALLY'') x = ''ALLY''"
    by (simp add: staff_ids)
  have c: "''ALLY009'' = ''ALLY'' @ ''009''" by simp
  have n: "fmt_03d (int (nat_of_digits ''009'') + 1) = ''010''"
    by (simp add: id_eval)
  from generate_employee_id_next [OF a, of "''009''"]
  have "generate_employee_id ''ALLY'' (staff [''ALLY001'', ''ALLY009'']) = ''ALLY010''"
    unfolding n by (simp add: staff_ids all_digits_def is_digit_def)
  moreover from generate_employee_id_next [OF b, of "''009''"]
  have "generate_employee_id ''ALLY'' (staff []) = ''ALLY001''"
    by (simp add: staff_ids)
  ultimately show ?thesis by simp
qed

text \<open>
  C7 as stated, for every prefix and every table of users, fails: beside ALLY009 the
  identifier ally5 is selected by the query and is the greatest text, and the next
  identifier is ALLY001 instead of ALLY010; and with the prefix 7 the identifier 7007 loses
  every 7 in \<^verbatim>\<open>replace\<close>, and the next identifier is 7001 instead of 7008.
\<close>

theorem generate_employee_id_next_counterexample:
  "generate_employee_id ''ALLY'' (staff [''ALLY009'', ''ally5'']) = ''ALLY001''
   \<and> generate_employee_id ''7'' (staff [''7001'', ''7007'']) = ''7001''"
  by (simp add: id_eval)

text \<open>
  C8, as the code has it. When the greatest identifier selected for the prefix leaves,
  after the prefix is removed, a text that \<^verbatim>\<open>int\<close> refuses, the next number is 1 and the
  next identifier is the prefix followed by 001. No exception leaves the function (its
  \<^verbatim>\<open>ValueError\<close> is caught). The number is always less than the number of selected
  identifiers plus one, which is at least 2.
\<close>

theorem get_next_employee_id_number_fallback:
  assumes "last_user d prefix = Some eid"
    and "py_int (py_remove prefix eid) = None"
  shows "get_next_employee_id_number d prefix = 1
       \<and> generate_employee_id prefix d = prefix @ ''001''
       \<and> get_next_employee_id_number d prefix
           < int (length (filter (like (prefix @ ''%'')) (map employee_id (users d)))) + 1"
proof -
  have n: "get_next_employee_id_number d prefix = 1"
    using assms by (simp add: get_next_employee_id_number_def)
  have "filter (like (prefix @ ''%'')) (map employee_id (users d)) \<noteq> []"
  proof
    assume e: "filter (like (prefix @ ''%'')) (map employee_id (users d)) = []"
    have "last_user d prefix = None" unfolding last_user_def e by simp
    then show False using assms(1) by simp
  qed
  then have "0 < length (filter (like (prefix @ ''%'')) (map employee_id (users d)))"
    by (rule iffD2 [OF length_greater_0_conv])
  then show ?thesis using n by (simp add: generate_employee_id_def fmt_03d_1)
qed

text \<open>
  Beside ALLY001 the identifier ALLYxyz is the greatest; its suffix is no number and the next
  identifier is ALLY001.
\<close>

theorem get_next_employee_id_number_fallback_witness:
  "last_user (staff [''ALLY001'', ''ALLYxyz'']) ''ALLY'' = Some ''ALLYxyz''
   \<and> py_int (py_remove ''ALLY'' ''ALLYxyz'') = None
   \<and> generate_employee_id ''ALLY'' (staff [''ALLY001'', ''ALLYxyz'']) = ''ALLY001''"
proof -
  have a: "last_user (staff [''ALLY001'', ''ALLYxyz'']) ''ALLY'' = Some ''ALLYxyz''"
    by (simp add: id_eval)
  have b: "py_int (py_remove ''ALLY'' ''ALLYxyz'') = None"
    by (simp add: id_eval)
  from get_next_employee_id_number_fallback [OF a b]
  show ?thesis using a b by simp
qed

text \<open>
  C8 as stated fails: with the two identifiers ALLY001 and ALLY12A the suffix 12A of the
  greatest cannot be parsed, the count for the prefix is 2, and the next number is 1, not
  3: the next identifier is ALLY001, which a user already has.
\<close>

theorem get_next_employee_id_number_fallback_counterexample:
  "last_user (staff [''ALLY001'', ''ALLY12A'']) ''ALLY'' = Some ''ALLY12A''
   \<and> py_int (py_remove ''ALLY'' ''ALLY12A'') = None
   \<and> length (filter (like ''ALLY%'') (map employee_id (users (staff [''ALLY001'', ''ALLY12A'']))))
       = 2
   \<and> get_next_employee_id_number (staff [''ALLY001'', ''ALLY12A'']) ''ALLY'' = 1
   \<and> generate_employee_id ''ALLY'' (staff [''ALLY001'', ''ALLY12A'']) = ''ALLY001''"
  by (simp add: id_eval)

end
